theory Spec2Isabelle
  imports Main "HOL-Library.Sublist" "HOL-Library.Char_ord" "HOL-Library.List_Lexorder"
    "HOL-Library.Multiset"
begin

section \<open>The fragment aggregation of build.py\<close>

text \<open>
  A shallow embedding of \<^verbatim>\<open>src/build.py\<close>: the structure check, the scan of the source
  tree into tiers, the resolution of special-order chains, the tender (companion) files and
  the assembly of the internal nml buffer, up to \<^verbatim>\<open>write_file\<close>. The calls that follow
  \<^verbatim>\<open>write_file\<close> in \<^verbatim>\<open>main\<close> (\<^verbatim>\<open>compile_grf\<close>, \<^verbatim>\<open>run_game\<close>) start external programs and
  never write the nml artifact; they are not modelled.
\<close>

subsection \<open>Paths and the file system\<close>

text \<open>
  A \<^verbatim>\<open>pathlib.Path\<close> is the list of its parts: \<^verbatim>\<open>Path("src/a/b.pnml")\<close> is
  \<open>[''src'', ''a'', ''b.pnml'']\<close>. Python orders paths by their parts, each part by code
  point, which is the lexicographic order of lists of strings used here for \<^verbatim>\<open>sorted\<close>.

  The file system is the list of its regular files, each with the text that reading it in
  text mode yields, in the order in which a directory walk (\<^verbatim>\<open>rglob\<close>) meets them, and
  the list of its directories. Every ancestor of a file exists as well. Directories are
  taken not to carry names that the glob patterns of the program match. The third field
  lists the characters that the encoding of text files cannot encode: under UTF-8 these are
  the lone surrogates by which Python carries the undecodable bytes of a file name.
\<close>

type_synonym path = "string list"

record filesystem =
  files :: "(path \<times> string) list"
  dirs :: "path list"
  unencodable :: "char list"

datatype error =
  FileNotFoundError string
  | RuntimeError string "path list"
  | IsADirectoryError path
  | NotADirectoryError path
  | UnicodeEncodeError char

definition nl :: string where
  "nl = [CHR 0x0A]"

definition quote :: string where
  "quote = [CHR 0x22]"

definition apostrophe :: string where
  "apostrophe = [CHR 0x27]"

fun split_on :: "char \<Rightarrow> string \<Rightarrow> string list" where
  "split_on c [] = [[]]"
| "split_on c (x # xs) =
     (if x = c then [] # split_on c xs
      else (case split_on c xs of [] \<Rightarrow> [[x]] | p # ps \<Rightarrow> (x # p) # ps))"

definition Path :: "string \<Rightarrow> path" where
  \<comment> \<open>\<^verbatim>\<open>Path(s)\<close> for a relative \<open>s\<close>: split at the separator, empty and \<^verbatim>\<open>.\<close> parts dropped.\<close>
  "Path s = filter (\<lambda>p. p \<noteq> [] \<and> p \<noteq> ''.'') (split_on CHR ''/'' s)"

definition joinpath :: "path \<Rightarrow> string \<Rightarrow> path" where
  "joinpath p name = p @ Path name"

definition str_path :: "path \<Rightarrow> string" where
  "str_path p = (case p of [] \<Rightarrow> ''.'' | q # qs \<Rightarrow> foldl (\<lambda>acc part. acc @ ''/'' @ part) q qs)"

definition path_name :: "path \<Rightarrow> string" where
  \<comment> \<open>\<^verbatim>\<open>Path.name\<close>: the last part, empty for the empty path.\<close>
  "path_name p = (case p of [] \<Rightarrow> [] | _ \<Rightarrow> last p)"

fun rfind :: "char \<Rightarrow> string \<Rightarrow> nat option" where
  "rfind c [] = None"
| "rfind c (x # xs) =
     (case rfind c xs of
        Some i \<Rightarrow> Some (Suc i)
      | None \<Rightarrow> (if x = c then Some 0 else None))"

definition suffix_of :: "path \<Rightarrow> string" where
  \<comment> \<open>\<^verbatim>\<open>Path.suffix\<close>: from the last dot of the name, when that dot is neither first nor last.\<close>
  "suffix_of p =
     (let name = path_name p in
      case rfind CHR ''.'' name of
        None \<Rightarrow> []
      | Some i \<Rightarrow> (if 0 < i \<and> i + 1 < length name then drop i name else []))"

definition stem :: "path \<Rightarrow> string" where
  \<comment> \<open>\<^verbatim>\<open>Path.stem\<close>: the name without its suffix.\<close>
  "stem p =
     (let name = path_name p in
      case rfind CHR ''.'' name of
        None \<Rightarrow> name
      | Some i \<Rightarrow> (if 0 < i \<and> i + 1 < length name then take i name else name))"

definition path_exists :: "filesystem \<Rightarrow> path \<Rightarrow> bool" where
  "path_exists fs p \<longleftrightarrow>
     p \<in> set (dirs fs) \<or> list_ex (\<lambda>(q, text). prefix p q) (files fs)"

definition read_text :: "filesystem \<Rightarrow> path \<Rightarrow> string option" where
  "read_text fs p = map_of (files fs) p"

definition rglob_pnml :: "filesystem \<Rightarrow> path \<Rightarrow> path list" where
  \<comment> \<open>\<^verbatim>\<open>search_dir.rglob("*.pnml")\<close>: the files below the directory whose name ends in \<^verbatim>\<open>.pnml\<close>.\<close>
  "rglob_pnml fs search_dir =
     filter (\<lambda>q. strict_prefix search_dir q \<and> suffix ''.pnml'' (path_name q)) (map fst (files fs))"

definition rglob_name :: "filesystem \<Rightarrow> path \<Rightarrow> string \<Rightarrow> path list" where
  \<comment> \<open>\<^verbatim>\<open>search_dir.rglob(filename)\<close> for a name without glob characters.\<close>
  "rglob_name fs search_dir filename =
     filter (\<lambda>q. strict_prefix search_dir q \<and> path_name q = filename) (map fst (files fs))"

subsection \<open>The tables\<close>

definition KeyFiles :: "(string \<times> string) list" where
  "KeyFiles =
    [(''grf.pnml'',
       quote @ ''grf.pnml'' @ quote @ '' not found. It should be in '' @ quote @ ''src'' @ quote
         @ '' and contain the grf block.''),
     (''railtypes.pnml'',
       quote @ ''railtypes.pnml'' @ quote @ '' not found. It should be in '' @ quote @ ''src''
         @ quote @ '' and contain the railtypetable block.''),
     (''sounds.pnml'',
       quote @ ''sounds.pnml'' @ quote @ '' not found.  Assuming no sounds are required''),
     (''templates_shared.pnml'',
       quote @ ''templates_shared.pnml'' @ quote
         @ '' not found.  Assuming no templates are required''),
     (''templates_trains.pnml'',
       quote @ ''templates_trains.pnml'' @ quote
         @ '' not found.  Assuming no templates are required'')]"

definition SpecialOrderFiles :: "(string \<times> string list) list" where
  "SpecialOrderFiles =
    [(''BR_Mk3_TS.pnml'',
       [''BR_Mk3_TSD.pnml'', ''BR43.pnml'', ''BR253.pnml'', ''BR254.pnml'', ''BR256.pnml'',
        ''BR257.pnml'']),
     (''BR_Mk4_Header.pnml'',
       [''BR_Mk4_DVT.pnml'', ''BR_Mk4_TF.pnml'', ''BR_Mk4_TFE.pnml'', ''BR_Mk4_TRFB.pnml'',
        ''BR_Mk4_TRSB.pnml'', ''BR_Mk4_TS.pnml'', ''BR_Mk4_TSD.pnml'', ''BR_Mk4_TSE.pnml'',
        ''BR91.pnml'', ''BR91_IC225.pnml'']),
     (''Containers_BR.pnml'', [''BR_Conflat_A.pnml'', ''BR_Conflat_P.pnml'']),
     (''RCH_1907_graphics.pnml'',
       [''1_Plank_Open_Wagons_Load.pnml'', ''3_Plank_Open_Wagons_Load.pnml'',
        ''5_Plank_Open_Wagons_Load.pnml'', ''7_Plank_Open_Wagons_Load.pnml'', ''RCH_1907.pnml'',
        ''RCH_1907_1_plank.pnml'', ''RCH_1907_3_plank.pnml'', ''RCH_1907_5_plank.pnml'',
        ''RCH_1907_7_plank.pnml'', ''RCH_1907_Van.pnml'']),
     (''60Long_Cont20_Side.pnml'',
       [''60Long_Cont30_Side.pnml'', ''60Long_Cont40_Side.pnml'', ''BR_FFA.pnml'',
        ''BR_FEA.pnml'']),
     (''LMS_4F.pnml'',
       [''MR_Tenders.pnml'', ''MR_3835.pnml'', ''LMS_Fowler_2P.pnml'', ''LMS_Fowler_4P.pnml'']),
     (''Evol_Header.pnml'', [''Evol_B.pnml'', ''Evol_F.pnml'', ''Evol_T.pnml''])]"

subsection \<open>check_project_structure\<close>

text \<open>
  The loop over \<^verbatim>\<open>KeyFiles.items()\<close>: a missing \<^verbatim>\<open>grf.pnml\<close> or \<^verbatim>\<open>railtypes.pnml\<close> raises,
  any other missing entry is logged as a warning. The result carries the warnings logged.
\<close>

fun check_key_files :: "filesystem \<Rightarrow> path \<Rightarrow> (string \<times> string) list \<Rightarrow> error + string list" where
  "check_key_files fs src_directory [] = Inr []"
| "check_key_files fs src_directory ((file, err) # rest) =
     (if \<not> path_exists fs (joinpath src_directory file) then
        (if file = ''grf.pnml'' \<or> file = ''railtypes.pnml'' then Inl (FileNotFoundError err)
         else (case check_key_files fs src_directory rest of
                 Inl e \<Rightarrow> Inl e
               | Inr warnings \<Rightarrow> Inr (err # warnings)))
      else check_key_files fs src_directory rest)"

definition check_project_structure ::
  "filesystem \<Rightarrow> path \<Rightarrow> path \<Rightarrow> path \<Rightarrow> error + (bool \<times> string list)" where
  "check_project_structure fs src_directory gfx_directory lang_directory =
     (if \<not> path_exists fs src_directory then
        Inl (FileNotFoundError (quote @ ''src'' @ quote @ '' directory not found.  Aborting''))
      else if \<not> path_exists fs gfx_directory then
        Inl (FileNotFoundError (quote @ ''gfx'' @ quote @ '' directory not found.  Aborting''))
      else
        (let has_lang_dir = path_exists fs lang_directory;
             lang_warning =
               (if has_lang_dir then []
                else [quote @ ''lang'' @ quote
                  @ '' directory not found.  Assuming hard-coded strings (this is not best practice)''])
         in case check_key_files fs src_directory KeyFiles of
              Inl e \<Rightarrow> Inl e
            | Inr warnings \<Rightarrow> Inr (has_lang_dir, lang_warning @ warnings)))"

subsection \<open>find_special_file, copy_file, write_file\<close>

definition find_special_file :: "filesystem \<Rightarrow> string \<Rightarrow> path \<Rightarrow> error + path" where
  "find_special_file fs filename search_dir =
     (let matches = rglob_name fs search_dir filename in
      if length matches = 0 then
        Inl (FileNotFoundError (''No file named '' @ apostrophe @ filename @ apostrophe @ '' found''))
      else if length matches > 1 then Inl (RuntimeError filename matches)
      else Inr (matches ! 0))"

text \<open>
  The internal nml buffer is a string that only ever grows by whole blocks, one per call of
  \<^verbatim>\<open>copy_file\<close>. The model keeps it as the list of these blocks, each with the path it was
  read from; the string of the source is \<open>render\<close> of the list.
\<close>

type_synonym buffer = "(path \<times> string) list"

definition render :: "buffer \<Rightarrow> string" where
  "render nml_file = concat (map snd nml_file)"

definition block_text :: "path \<Rightarrow> string \<Rightarrow> string" where
  "block_text filepath text = ''// '' @ stem filepath @ suffix_of filepath @ nl @ text @ nl @ nl"

definition copy_file :: "filesystem \<Rightarrow> path \<Rightarrow> buffer \<Rightarrow> error + buffer" where
  "copy_file fs filepath nml_file =
     (if \<not> path_exists fs filepath then
        Inl (FileNotFoundError (''The file <'' @ str_path filepath @ ''> does not exist.''))
      else (case read_text fs filepath of
              None \<Rightarrow> Inl (IsADirectoryError filepath)
            | Some text \<Rightarrow> Inr (nml_file @ [(filepath, block_text filepath text)])))"

text \<open>
  \<^verbatim>\<open>write_file\<close> opens the artifact for writing, which empties it, and then writes the buffer
  one character at a time; a character that cannot be encoded raises and leaves what was
  written before it. The operating system resolves the path of the artifact from the current
  directory: every part before the last must lead to a directory, and \<^verbatim>\<open>..\<close> leads to the
  parent (symbolic links are not modelled).
\<close>

definition is_dir :: "filesystem \<Rightarrow> path \<Rightarrow> bool" where
  "is_dir fs p \<longleftrightarrow>
     p = [] \<or> p \<in> set (dirs fs) \<or> list_ex (\<lambda>(q, text). strict_prefix p q) (files fs)"

definition is_file :: "filesystem \<Rightarrow> path \<Rightarrow> bool" where
  "is_file fs p \<longleftrightarrow> list_ex (\<lambda>(q, text). q = p) (files fs)"

definition step_into :: "path \<Rightarrow> string \<Rightarrow> path" where
  "step_into cur part =
     (if part = ''..'' then (if cur = [] \<or> last cur = ''..'' then cur @ [''..''] else butlast cur)
      else cur @ [part])"

fun locate :: "filesystem \<Rightarrow> path \<Rightarrow> path \<Rightarrow> error + path" where
  "locate fs cur [] = Inr cur"
| "locate fs cur [part] = Inr (step_into cur part)"
| "locate fs cur (part # rest) =
     (let next = step_into cur part
      in if is_dir fs next then locate fs next rest
         else if is_file fs next then Inl (NotADirectoryError next)
         else Inl (FileNotFoundError (str_path next)))"

definition truncate_file :: "filesystem \<Rightarrow> path \<Rightarrow> filesystem" where
  \<comment> \<open>the file is emptied, or created empty at the end of the walk\<close>
  "truncate_file fs target =
     (if is_file fs target
      then fs\<lparr>files := map (\<lambda>(q, t). if q = target then (q, []) else (q, t)) (files fs)\<rparr>
      else fs\<lparr>files := files fs @ [(target, [])]\<rparr>)"

definition append_char :: "filesystem \<Rightarrow> path \<Rightarrow> char \<Rightarrow> filesystem" where
  "append_char fs target c =
     fs\<lparr>files := map (\<lambda>(q, t). if q = target then (q, t @ [c]) else (q, t)) (files fs)\<rparr>"

definition open_w :: "filesystem \<Rightarrow> path \<Rightarrow> error + path \<times> filesystem" where
  \<comment> \<open>\<^verbatim>\<open>open(filepath, "w")\<close>\<close>
  "open_w fs filepath =
     (case locate fs [] filepath of
        Inl e \<Rightarrow> Inl e
      | Inr target \<Rightarrow>
          (if is_dir fs target then Inl (IsADirectoryError target)
           else Inr (target, truncate_file fs target)))"

fun write_chars ::
  "char list \<Rightarrow> filesystem \<Rightarrow> path \<Rightarrow> string \<Rightarrow> (error + unit) \<times> filesystem" where
  \<comment> \<open>\<^verbatim>\<open>for line in nml_file: file_writer.write(line)\<close>, over the characters of the string\<close>
  "write_chars bad fs target [] = (Inr (), fs)"
| "write_chars bad fs target (c # cs) =
     (if c \<in> set bad then (Inl (UnicodeEncodeError c), fs)
      else write_chars bad (append_char fs target c) target cs)"

definition write_file :: "filesystem \<Rightarrow> string \<Rightarrow> buffer \<Rightarrow> (error + unit) \<times> filesystem" where
  "write_file fs filename nml_file =
     (let filepath = Path (''build/'' @ filename @ ''.nml'');
          build_dir = Path ''build/'';
          fs1 = (if \<not> path_exists fs build_dir then fs\<lparr>dirs := dirs fs @ [build_dir]\<rparr> else fs)
      in case open_w fs1 filepath of
           Inl e \<Rightarrow> (Inl e, fs1)
         | Inr (target, fs2) \<Rightarrow> write_chars (unencodable fs) fs2 target (render nml_file))"

subsection \<open>The scan of the source tree\<close>

text \<open>
  The state of the loop over \<^verbatim>\<open>src_directory.rglob("*.pnml")\<close>: the four lists of the ordered
  dictionary \<^verbatim>\<open>pnml_files\<close>, the dictionaries \<^verbatim>\<open>tender_files\<close> and \<^verbatim>\<open>special_files\<close> and the set
  \<^verbatim>\<open>in_chain\<close>. The dictionary \<^verbatim>\<open>file_list\<close> only feeds the debug log and is left out, as is
  the log.
\<close>

record tiers =
  Top_level :: "path list"
  Priority :: "path list"
  Normal :: "path list"
  Append :: "path list"

record scan_state =
  pnml_files :: tiers
  tender_files :: "string \<rightharpoonup> path"
  special_files :: "string \<rightharpoonup> path list"
  in_chain :: "string set"

definition initial_scan :: scan_state where
  "initial_scan =
     \<lparr>pnml_files = \<lparr>Top_level = [], Priority = [], Normal = [], Append = []\<rparr>,
      tender_files = Map.empty, special_files = Map.empty, in_chain = {}\<rparr>"

definition before_underscore :: "string \<Rightarrow> string" where
  \<comment> \<open>\<^verbatim>\<open>s.rsplit("_")[0]\<close>: without a split limit, the text before the first underscore.\<close>
  "before_underscore s = takeWhile (\<lambda>c. c \<noteq> CHR ''_'') s"

text \<open>
  The inner loop over the followers of a trigger (every entry of the table is a list, so
  only that branch of the source is taken): the follower is marked in-chain, then searched.
\<close>

fun resolve_chain ::
  "filesystem \<Rightarrow> path \<Rightarrow> string list \<Rightarrow> string set \<times> path list \<Rightarrow> error + string set \<times> path list"
where
  "resolve_chain fs src_directory [] (ic, file_chain) = Inr (ic, file_chain)"
| "resolve_chain fs src_directory (cf # chain) (ic, file_chain) =
     (case find_special_file fs cf src_directory of
        Inl e \<Rightarrow> Inl e
      | Inr p \<Rightarrow> resolve_chain fs src_directory chain (insert cf ic, file_chain @ [p]))"

definition place_file :: "path \<Rightarrow> scan_state \<Rightarrow> path \<Rightarrow> scan_state" where
  \<comment> \<open>"sort and add the pnml files to their correct location"\<close>
  "place_file src_directory st file =
     (let relative_path = drop (length src_directory) file;
          file_name = stem file @ suffix_of file;
          pf = pnml_files st
      in if length relative_path = 1 then
           (if file_name \<notin> fst ` set KeyFiles
            then st\<lparr>pnml_files := pf\<lparr>Top_level := Top_level pf @ [file]\<rparr>\<rparr>
            else st)
         else if ''priority'' \<in> set relative_path then
           st\<lparr>pnml_files := pf\<lparr>Priority := Priority pf @ [file]\<rparr>\<rparr>
         else if ''append'' \<in> set relative_path then
           st\<lparr>pnml_files := pf\<lparr>Append := Append pf @ [file]\<rparr>\<rparr>
         else if sublist ''Tenders'' (stem file) then
           st\<lparr>tender_files := (tender_files st)(before_underscore (stem file) \<mapsto> file)\<rparr>
         else if file_name \<notin> fst ` set KeyFiles \<and> file_name \<notin> in_chain st then
           st\<lparr>pnml_files := pf\<lparr>Normal := Normal pf @ [file]\<rparr>\<rparr>
         else st)"

definition scan_file :: "filesystem \<Rightarrow> path \<Rightarrow> scan_state \<Rightarrow> path \<Rightarrow> error + scan_state" where
  "scan_file fs src_directory st file =
     (let file_name = stem file @ suffix_of file in
      case map_of SpecialOrderFiles file_name of
        Some chain \<Rightarrow>
          (if file_name \<notin> in_chain st then
             (case resolve_chain fs src_directory chain (in_chain st, []) of
                Inl e \<Rightarrow> Inl e
              | Inr (ic, file_chain) \<Rightarrow>
                  Inr (place_file src_directory
                    (st\<lparr>in_chain := ic,
                        special_files := (special_files st)(file_name \<mapsto> file_chain)\<rparr>) file))
           else Inr (place_file src_directory st file))
      | None \<Rightarrow> Inr (place_file src_directory st file))"

fun scan_files :: "filesystem \<Rightarrow> path \<Rightarrow> scan_state \<Rightarrow> path list \<Rightarrow> error + scan_state" where
  "scan_files fs src_directory st [] = Inr st"
| "scan_files fs src_directory st (file # rest) =
     (case scan_file fs src_directory st file of
        Inl e \<Rightarrow> Inl e
      | Inr st' \<Rightarrow> scan_files fs src_directory st' rest)"

subsection \<open>The assembly of the buffer\<close>

fun copy_files :: "filesystem \<Rightarrow> path list \<Rightarrow> buffer \<Rightarrow> error + buffer" where
  "copy_files fs [] nml_file = Inr nml_file"
| "copy_files fs (p # ps) nml_file =
     (case copy_file fs p nml_file of
        Inl e \<Rightarrow> Inl e
      | Inr nml_file' \<Rightarrow> copy_files fs ps nml_file')"

definition chain_of :: "scan_state \<Rightarrow> string \<Rightarrow> path list" where
  \<comment> \<open>the files copied after a file of that name: its resolved chain, when it is a trigger\<close>
  "chain_of sc file_name =
     (if file_name \<in> fst ` set SpecialOrderFiles then
        (case special_files sc file_name of None \<Rightarrow> [] | Some chain \<Rightarrow> chain)
      else [])"

definition emit_file ::
  "filesystem \<Rightarrow> scan_state \<Rightarrow> (string \<rightharpoonup> path) \<times> buffer \<Rightarrow> path \<Rightarrow>
   error + (string \<rightharpoonup> path) \<times> buffer" where
  "emit_file fs sc state file =
     (let tf = fst state; nml_file = snd state; file_name = stem file @ suffix_of file in
      if file_name \<in> in_chain sc then Inr (tf, nml_file)
      else
        (case (if ''Locomotive_Steam'' \<in> set file then
                 (let engine_company_name = before_underscore (stem file) in
                  case tf engine_company_name of
                    Some tender_file \<Rightarrow>
                      (case copy_file fs tender_file nml_file of
                         Inl e \<Rightarrow> Inl e
                       | Inr nml_file' \<Rightarrow> Inr (tf(engine_company_name := None), nml_file'))
                  | None \<Rightarrow> Inr (tf, nml_file))
               else Inr (tf, nml_file)) of
           Inl e \<Rightarrow> Inl e
         | Inr (tf1, nml_file1) \<Rightarrow>
             (case copy_file fs file nml_file1 of
                Inl e \<Rightarrow> Inl e
              | Inr nml_file2 \<Rightarrow>
                  (case copy_files fs (chain_of sc file_name) nml_file2 of
                     Inl e \<Rightarrow> Inl e
                   | Inr nml_file3 \<Rightarrow> Inr (tf1, nml_file3)))))"

fun emit_files ::
  "filesystem \<Rightarrow> scan_state \<Rightarrow> (string \<rightharpoonup> path) \<times> buffer \<Rightarrow> path list \<Rightarrow>
   error + (string \<rightharpoonup> path) \<times> buffer" where
  "emit_files fs sc state [] = Inr state"
| "emit_files fs sc state (file # rest) =
     (case emit_file fs sc state file of
        Inl e \<Rightarrow> Inl e
      | Inr state' \<Rightarrow> emit_files fs sc state' rest)"

fun emit_tiers ::
  "filesystem \<Rightarrow> scan_state \<Rightarrow> (string \<rightharpoonup> path) \<times> buffer \<Rightarrow> path list list \<Rightarrow>
   error + (string \<rightharpoonup> path) \<times> buffer" where
  "emit_tiers fs sc state [] = Inr state"
| "emit_tiers fs sc state (file_list # rest) =
     (case emit_files fs sc state (sort file_list) of
        Inl e \<Rightarrow> Inl e
      | Inr state' \<Rightarrow> emit_tiers fs sc state' rest)"

definition tier_lists :: "scan_state \<Rightarrow> path list list" where
  \<comment> \<open>\<^verbatim>\<open>pnml_files.items()\<close>, in the insertion order of the ordered dictionary\<close>
  "tier_lists sc =
     [Top_level (pnml_files sc), Priority (pnml_files sc), Normal (pnml_files sc),
      Append (pnml_files sc)]"

definition assemble :: "filesystem \<Rightarrow> path \<Rightarrow> error + buffer" where
  \<comment> \<open>lines 237 to 320 of \<^verbatim>\<open>main\<close>: the key files, the scan, the tiers\<close>
  "assemble fs src_directory =
     (case copy_files fs (map (joinpath src_directory) (map fst KeyFiles)) [] of
        Inl e \<Rightarrow> Inl e
      | Inr nml_file \<Rightarrow>
          (case scan_files fs src_directory initial_scan (rglob_pnml fs src_directory) of
             Inl e \<Rightarrow> Inl e
           | Inr sc \<Rightarrow>
               (case emit_tiers fs sc (tender_files sc, nml_file) (tier_lists sc) of
                  Inl e \<Rightarrow> Inl e
                | Inr (tf, nml_file') \<Rightarrow> Inr nml_file')))"

definition main ::
  "string \<Rightarrow> path \<Rightarrow> path \<Rightarrow> path \<Rightarrow> bool \<Rightarrow> bool \<Rightarrow> filesystem \<Rightarrow> (error + unit) \<times> filesystem"
where
  "main grf_name src_dir lang_dir gfx_dir b_compile_grf b_run_game fs =
     (let src_directory = Path ''src'';
          lang_directory = Path ''lang'';
          gfx_directory = Path ''gfx''
      in case check_project_structure fs src_directory gfx_directory lang_directory of
           Inl e \<Rightarrow> (Inl e, fs)
         | Inr (has_lang_dir, warnings) \<Rightarrow>
             (case assemble fs src_directory of
                Inl e \<Rightarrow> (Inl e, fs)
              | Inr nml_file \<Rightarrow> write_file fs grf_name nml_file))"

subsection \<open>Source trees used as examples\<close>

definition key_file_entries :: "(path \<times> string) list" where
  "key_file_entries =
     [([''src'', ''grf.pnml''], ''grf {}''),
      ([''src'', ''railtypes.pnml''], ''railtypetable {}''),
      ([''src'', ''sounds.pnml''], ''sounds''),
      ([''src'', ''templates_shared.pnml''], ''shared''),
      ([''src'', ''templates_trains.pnml''], ''trains'')]"

definition tree_required_only :: filesystem where
  \<comment> \<open>only \<^verbatim>\<open>grf.pnml\<close> and \<^verbatim>\<open>railtypes.pnml\<close> in \<^verbatim>\<open>src\<close>, and a \<^verbatim>\<open>gfx\<close> directory\<close>
  "tree_required_only =
     \<lparr>files = take 2 key_file_entries, dirs = [[''src''], [''gfx'']], unencodable = []\<rparr>"

definition tree_override :: filesystem where
  \<comment> \<open>a complete project kept under \<^verbatim>\<open>mysrc\<close>, \<^verbatim>\<open>mylang\<close>, \<^verbatim>\<open>mygfx\<close>\<close>
  "tree_override =
     \<lparr>files = map (\<lambda>(p, text). (''mysrc'' # tl p, text)) key_file_entries,
      dirs = [[''mysrc''], [''mylang''], [''mygfx'']], unencodable = []\<rparr>"

definition tree_priority_key :: filesystem where
  \<comment> \<open>all key files, and a second \<^verbatim>\<open>sounds.pnml\<close> below \<^verbatim>\<open>src/priority\<close>\<close>
  "tree_priority_key =
     \<lparr>files = key_file_entries @ [([''src'', ''priority'', ''sounds.pnml''], ''more sounds'')],
      dirs = [[''src''], [''src'', ''priority''], [''gfx'']], unencodable = []\<rparr>"

definition tree_tender :: filesystem where
  \<comment> \<open>a steam locomotive and the tender file of its company\<close>
  "tree_tender =
     \<lparr>files = key_file_entries @
        [([''src'', ''Locomotive_Steam'', ''GWR_Tenders.pnml''], ''tender''),
         ([''src'', ''Locomotive_Steam'', ''GWR_4900.pnml''], ''engine'')],
      dirs = [[''src''], [''src'', ''Locomotive_Steam''], [''gfx'']], unencodable = []\<rparr>"

subsection \<open>The order of emission\<close>

text \<open>
  The block that \<^verbatim>\<open>copy_file\<close> appends for a file, and the sequence of files that the loop
  over one tier copies: the loop of \<open>emit_files\<close> without the reading of the files. It
  returns the tender files still pending and the files copied, in order.
\<close>

definition block :: "filesystem \<Rightarrow> path \<Rightarrow> path \<times> string" where
  "block fs p = (p, block_text p (case read_text fs p of None \<Rightarrow> [] | Some text \<Rightarrow> text))"

fun emit_order ::
  "scan_state \<Rightarrow> (string \<rightharpoonup> path) \<Rightarrow> path list \<Rightarrow> (string \<rightharpoonup> path) \<times> path list" where
  "emit_order sc tf [] = (tf, [])"
| "emit_order sc tf (file # rest) =
     (if path_name file \<in> in_chain sc then emit_order sc tf rest
      else
        (let k = before_underscore (stem file);
             pending = (if ''Locomotive_Steam'' \<in> set file then tf k else None);
             tf1 = (case pending of None \<Rightarrow> tf | Some t \<Rightarrow> tf(k := None));
             r = emit_order sc tf1 rest
         in (fst r,
             (case pending of None \<Rightarrow> [] | Some t \<Rightarrow> [t])
               @ file # chain_of sc (path_name file) @ snd r)))"

subsection \<open>Notions used in the statements\<close>

text \<open>
  The names of the special-order table, the classes into which the branches of the scan sort
  a file, the scan without its errors, and the shape of what one tier emits: its files that
  are not in a chain, in order, each after at most one pending tender file and before its
  own chain.
\<close>

definition triggers :: "string list" where
  "triggers = map fst SpecialOrderFiles"

definition followers :: "string list" where
  "followers = concat (map snd SpecialOrderFiles)"

definition chain_names :: "string \<Rightarrow> string list" where
  "chain_names n = (case map_of SpecialOrderFiles n of None \<Rightarrow> [] | Some chain \<Rightarrow> chain)"

definition resolved :: "filesystem \<Rightarrow> path \<Rightarrow> string \<Rightarrow> path list" where
  "resolved fs d n = map (\<lambda>cf. rglob_name fs d cf ! 0) (chain_names n)"

definition chain_ok :: "filesystem \<Rightarrow> path \<Rightarrow> string \<Rightarrow> bool" where
  "chain_ok fs d n = list_all (\<lambda>cf. length (rglob_name fs d cf) = 1) (chain_names n)"

definition relative_to :: "path \<Rightarrow> path \<Rightarrow> path" where
  "relative_to d f = drop (length d) f"

definition top_level_class :: "path \<Rightarrow> path \<Rightarrow> bool" where
  "top_level_class d f \<longleftrightarrow> length (relative_to d f) = 1 \<and> path_name f \<notin> fst ` set KeyFiles"

definition priority_class :: "path \<Rightarrow> path \<Rightarrow> bool" where
  "priority_class d f \<longleftrightarrow> length (relative_to d f) \<noteq> 1 \<and> ''priority'' \<in> set (relative_to d f)"

definition append_class :: "path \<Rightarrow> path \<Rightarrow> bool" where
  "append_class d f \<longleftrightarrow>
     length (relative_to d f) \<noteq> 1 \<and> ''priority'' \<notin> set (relative_to d f)
     \<and> ''append'' \<in> set (relative_to d f)"

definition tender_class :: "path \<Rightarrow> path \<Rightarrow> bool" where
  "tender_class d f \<longleftrightarrow>
     length (relative_to d f) \<noteq> 1 \<and> ''priority'' \<notin> set (relative_to d f)
     \<and> ''append'' \<notin> set (relative_to d f) \<and> sublist ''Tenders'' (stem f)"

definition normal_class :: "path \<Rightarrow> path \<Rightarrow> bool" where
  "normal_class d f \<longleftrightarrow>
     length (relative_to d f) \<noteq> 1 \<and> ''priority'' \<notin> set (relative_to d f)
     \<and> ''append'' \<notin> set (relative_to d f) \<and> \<not> sublist ''Tenders'' (stem f)
     \<and> path_name f \<notin> fst ` set KeyFiles"

fun register_tenders :: "path \<Rightarrow> (string \<rightharpoonup> path) \<Rightarrow> path list \<Rightarrow> (string \<rightharpoonup> path)" where
  "register_tenders d tf [] = tf"
| "register_tenders d tf (f # rest) =
     register_tenders d (if tender_class d f then tf(before_underscore (stem f) \<mapsto> f) else tf) rest"

definition mark_chain :: "filesystem \<Rightarrow> path \<Rightarrow> scan_state \<Rightarrow> string \<Rightarrow> scan_state" where
  "mark_chain fs d st n =
     st\<lparr>in_chain := in_chain st \<union> set (chain_names n),
        special_files :=
          (if n \<in> set triggers then (special_files st)(n \<mapsto> resolved fs d n)
           else special_files st)\<rparr>"

fun scan_pure :: "filesystem \<Rightarrow> path \<Rightarrow> scan_state \<Rightarrow> path list \<Rightarrow> scan_state" where
  "scan_pure fs d st [] = st"
| "scan_pure fs d st (f # rest) =
     scan_pure fs d (place_file d (mark_chain fs d st (path_name f)) f) rest"

definition key_paths :: "path \<Rightarrow> path list" where
  "key_paths d = map (joinpath d) (map fst KeyFiles)"

definition spliced :: "scan_state \<Rightarrow> path list \<Rightarrow> path list \<Rightarrow> bool" where
  "spliced sc prims e \<longleftrightarrow>
     (\<exists>pre. length pre = length prims
        \<and> (\<forall>g\<in>set pre. length g \<le> 1 \<and> set g \<subseteq> ran (tender_files sc))
        \<and> e = concat (map2 (\<lambda>g f. g @ f # chain_of sc (path_name f)) pre prims))"

definition all_tiers :: "scan_state \<Rightarrow> path list" where
  "all_tiers sc = concat (map sort (tier_lists sc))"

definition tree_tiers :: filesystem where
  \<comment> \<open>fragments for every tier, and the chain of \<^verbatim>\<open>Evol_Header.pnml\<close> spread over directories\<close>
  "tree_tiers =
     \<lparr>files = key_file_entries @
        [([''src'', ''wagons'', ''b.pnml''], ''wagon b''),
         ([''src'', ''append'', ''z.pnml''], ''last''),
         ([''src'', ''units'', ''Evol_T.pnml''], ''evol t''),
         ([''src'', ''wagons'', ''a.pnml''], ''wagon a''),
         ([''src'', ''header.pnml''], ''top''),
         ([''src'', ''units'', ''Evol_Header.pnml''], ''evol header''),
         ([''src'', ''priority'', ''p.pnml''], ''first''),
         ([''src'', ''cabs'', ''Evol_B.pnml''], ''evol b''),
         ([''src'', ''Evol_F.pnml''], ''evol f'')],
      dirs = [[''gfx''], [''lang'']], unencodable = []\<rparr>"

definition tree_duplicate_follower :: filesystem where
  \<comment> \<open>as \<open>tree_tiers\<close>, with a second \<^verbatim>\<open>Evol_B.pnml\<close> in another directory\<close>
  "tree_duplicate_follower =
     tree_tiers\<lparr>files := files tree_tiers @ [([''src'', ''units'', ''Evol_B.pnml''], ''again'')]\<rparr>"

definition matches :: "scan_state \<Rightarrow> string \<Rightarrow> path \<Rightarrow> bool" where
  "matches sc k f \<longleftrightarrow>
     path_name f \<notin> in_chain sc \<and> ''Locomotive_Steam'' \<in> set f \<and> before_underscore (stem f) = k"

definition tree_unmatched_tender :: filesystem where
  \<comment> \<open>the chain of \<^verbatim>\<open>LMS_4F.pnml\<close>, whose follower \<^verbatim>\<open>MR_Tenders.pnml\<close> is also a tender file\<close>
  "tree_unmatched_tender =
     \<lparr>files = key_file_entries @
        [([''src'', ''Locomotive_Steam'', ''MR_Tenders.pnml''], ''tenders''),
         ([''src'', ''Locomotive_Steam'', ''LMS_4F.pnml''], ''4F''),
         ([''src'', ''Locomotive_Steam'', ''MR_3835.pnml''], ''3835''),
         ([''src'', ''Locomotive_Steam'', ''LMS_Fowler_2P.pnml''], ''2P''),
         ([''src'', ''Locomotive_Steam'', ''LMS_Fowler_4P.pnml''], ''4P'')],
      dirs = [[''gfx'']], unencodable = []\<rparr>"

definition tree_tender_twice :: filesystem where
  \<comment> \<open>the same, with a further steam locomotive of the company \<^verbatim>\<open>MR\<close>\<close>
  "tree_tender_twice =
     tree_unmatched_tender\<lparr>files := files tree_unmatched_tender @
        [([''src'', ''Locomotive_Steam'', ''MR_1F.pnml''], ''1F'')]\<rparr>"


definition tree_two_tenders :: filesystem where
  \<comment> \<open>two tender files of the same company in different directories, and one locomotive\<close>
  "tree_two_tenders =
     \<lparr>files = key_file_entries @
        [([''src'', ''old'', ''GWR_Tenders.pnml''], ''old tenders''),
         ([''src'', ''new'', ''GWR_Tenders.pnml''], ''new tenders''),
         ([''src'', ''Locomotive_Steam'', ''GWR_4900.pnml''], ''engine'')],
      dirs = [[''gfx'']], unencodable = []\<rparr>"

definition tree_two_tenders_walked_otherwise :: filesystem where
  \<comment> \<open>the same tree, with the two directories met in the other order\<close>
  "tree_two_tenders_walked_otherwise =
     \<lparr>files = key_file_entries @
        [([''src'', ''new'', ''GWR_Tenders.pnml''], ''new tenders''),
         ([''src'', ''old'', ''GWR_Tenders.pnml''], ''old tenders''),
         ([''src'', ''Locomotive_Steam'', ''GWR_4900.pnml''], ''engine'')],
      dirs = [[''gfx'']], unencodable = []\<rparr>"


subsection \<open>Names, stems and suffixes\<close>

lemma stem_suffix_name: "stem p @ suffix_of p = path_name p"
  by (simp add: stem_def suffix_of_def Let_def split: option.splits)

subsection \<open>What write_file leaves in the file system\<close>








text \<open>
  The write loop in one step, for evaluation: what it writes is the longest beginning of
  the string that can be encoded.
\<close>

lemma map_unchanged:
  "map (\<lambda>(q, t). if q = target then (q, t @ []) else (q, t)) xs = xs"
  by (induction xs) auto

lemma write_chars_closed [code]:
  "write_chars bad fs target cs =
     (let written = takeWhile (\<lambda>c. c \<notin> set bad) cs
      in (if written = cs then Inr () else Inl (UnicodeEncodeError (cs ! length written)),
          fs\<lparr>files := map (\<lambda>(q, t). if q = target then (q, t @ written) else (q, t)) (files fs)\<rparr>))"
proof (induction cs arbitrary: fs)
  case Nil
  show ?case by (simp add: map_unchanged)
next
  case (Cons c cs)
  show ?case
  proof (cases "c \<in> set bad")
    case True
    then show ?thesis by (simp add: map_unchanged)
  next
    case False
    have m: "map (\<lambda>(q, t). if q = target then (q, t @ takeWhile (\<lambda>c. c \<notin> set bad) cs) else (q, t))
        (map (\<lambda>(q, t). if q = target then (q, t @ [c]) else (q, t)) (files fs)) =
      map (\<lambda>(q, t). if q = target then (q, t @ c # takeWhile (\<lambda>c. c \<notin> set bad) cs) else (q, t))
        (files fs)"
      by (auto split: prod.splits)
    from False Cons.IH [of "append_char fs target c"] m show ?thesis
      by (simp add: Let_def append_char_def)
  qed
qed






subsection \<open>Three runs evaluated\<close>

text \<open>
  C1 (the code departs from the claim). On a source tree that holds only \<^verbatim>\<open>grf.pnml\<close> and
  \<^verbatim>\<open>railtypes.pnml\<close> the structure check passes and logs its warnings, among them that
  no sounds are assumed to be required, but the run then stops with FileNotFoundError in
  \<^verbatim>\<open>copy_file\<close> on \<^verbatim>\<open>src/sounds.pnml\<close>, and nothing is written.
\<close>

theorem C1_required_only_aborts:
  "check_project_structure tree_required_only [''src''] [''gfx''] [''lang''] =
     Inr (False,
       [quote @ ''lang'' @ quote
          @ '' directory not found.  Assuming hard-coded strings (this is not best practice)'',
        quote @ ''sounds.pnml'' @ quote @ '' not found.  Assuming no sounds are required'',
        quote @ ''templates_shared.pnml'' @ quote
          @ '' not found.  Assuming no templates are required'',
        quote @ ''templates_trains.pnml'' @ quote
          @ '' not found.  Assuming no templates are required''])
   \<and> main ''out'' [''src''] [''lang''] [''gfx''] False False tree_required_only =
     (Inl (FileNotFoundError ''The file <src/sounds.pnml> does not exist.''), tree_required_only)"
  by code_simp

text \<open>
  C2 (the code departs from the claim). \<^verbatim>\<open>main\<close> receives the three directories and
  overwrites them with \<^verbatim>\<open>Path("src")\<close>, \<^verbatim>\<open>Path("lang")\<close> and \<^verbatim>\<open>Path("gfx")\<close>: on a complete
  project kept under other names, passed as overrides, the run stops because \<^verbatim>\<open>src\<close> is
  not found.
\<close>

theorem C2_overrides_ignored:
  "check_project_structure tree_override [''mysrc''] [''mygfx''] [''mylang''] = Inr (True, [])
   \<and> main ''out'' [''mysrc''] [''mylang''] [''mygfx''] False False tree_override =
     (Inl (FileNotFoundError (quote @ ''src'' @ quote @ '' directory not found.  Aborting'')),
      tree_override)"
  by code_simp

text \<open>
  C7 (the code departs from the claim). The key files are filtered out of the top level and
  of the Normal tier, but not of the Priority and Append tiers: a file named
  \<^verbatim>\<open>sounds.pnml\<close> below \<^verbatim>\<open>src/priority\<close> is copied as a Priority fragment, after the key
  files.
\<close>

theorem C7_key_file_in_priority_tier:
  "map_sum id (map fst) (assemble tree_priority_key [''src'']) =
     Inr [[''src'', ''grf.pnml''], [''src'', ''railtypes.pnml''], [''src'', ''sounds.pnml''],
          [''src'', ''templates_shared.pnml''], [''src'', ''templates_trains.pnml''],
          [''src'', ''priority'', ''sounds.pnml'']]"
  by code_simp

subsection \<open>Tender files and their locomotives\<close>





subsection \<open>The special-order table\<close>

lemma table_triggers_not_followers: "list_all (\<lambda>t. t \<notin> set followers) triggers"
  by code_simp

lemma table_followers_distinct: "distinct followers"
  by code_simp

lemma table_triggers_distinct: "distinct triggers"
  by code_simp



lemma chain_names_followers: "set (chain_names n) \<subseteq> set followers"
proof (cases "map_of SpecialOrderFiles n")
  case None
  then show ?thesis by (simp add: chain_names_def)
next
  case (Some chain)
  then have "(n, chain) \<in> set SpecialOrderFiles" by (rule map_of_SomeD)
  then have "chain \<in> set (map snd SpecialOrderFiles)" by force
  then have "set chain \<subseteq> set followers" unfolding followers_def by auto
  with Some show ?thesis by (simp add: chain_names_def)
qed

lemma trigger_iff: "n \<in> set triggers \<longleftrightarrow> map_of SpecialOrderFiles n \<noteq> None"
  by (simp add: triggers_def map_of_eq_None_iff)

lemma trigger_not_follower: "n \<in> set triggers \<Longrightarrow> n \<notin> set followers"
  using table_triggers_not_followers by (simp add: list_all_iff)

lemma resolve_chain_find:
  "resolve_chain fs d chain (ic, fc) =
     (case List.find (\<lambda>cf. length (rglob_name fs d cf) \<noteq> 1) chain of
        None \<Rightarrow> Inr (ic \<union> set chain, fc @ map (\<lambda>cf. rglob_name fs d cf ! 0) chain)
      | Some cf \<Rightarrow>
          (if rglob_name fs d cf = []
           then Inl (FileNotFoundError (''No file named '' @ apostrophe @ cf @ apostrophe @ '' found''))
           else Inl (RuntimeError cf (rglob_name fs d cf))))"
proof (induction chain arbitrary: ic fc)
  case Nil
  show ?case by simp
next
  case (Cons cf chain)
  show ?case
  proof (cases "length (rglob_name fs d cf) = 1")
    case True
    then show ?thesis
      using Cons.IH [of "insert cf ic" "fc @ [rglob_name fs d cf ! 0]"]
      by (cases "rglob_name fs d cf") (auto simp: find_special_file_def Let_def split: option.splits)
  next
    case False
    then show ?thesis
      by (cases "rglob_name fs d cf") (auto simp: find_special_file_def Let_def)
  qed
qed

lemma resolve_chain_Inr:
  "resolve_chain fs d chain (ic, fc) = Inr r \<longleftrightarrow>
     list_all (\<lambda>cf. length (rglob_name fs d cf) = 1) chain
     \<and> r = (ic \<union> set chain, fc @ map (\<lambda>cf. rglob_name fs d cf ! 0) chain)"
  by (auto simp: resolve_chain_find find_None_iff list_all_iff split: option.splits
      dest: find_Some_iff [THEN iffD1])

subsection \<open>The scan in closed form\<close>

lemma place_file_in_chain [simp]: "in_chain (place_file d st f) = in_chain st"
  by (simp add: place_file_def Let_def)

lemma place_file_special_files [simp]: "special_files (place_file d st f) = special_files st"
  by (simp add: place_file_def Let_def)

lemma place_file_Top_level:
  "Top_level (pnml_files (place_file d st f)) =
     Top_level (pnml_files st) @ (if top_level_class d f then [f] else [])"
  by (simp add: place_file_def Let_def stem_suffix_name top_level_class_def relative_to_def)

lemma place_file_Priority:
  "Priority (pnml_files (place_file d st f)) =
     Priority (pnml_files st) @ (if priority_class d f then [f] else [])"
  by (simp add: place_file_def Let_def stem_suffix_name priority_class_def relative_to_def)

lemma place_file_Append:
  "Append (pnml_files (place_file d st f)) =
     Append (pnml_files st) @ (if append_class d f then [f] else [])"
  by (simp add: place_file_def Let_def stem_suffix_name append_class_def relative_to_def)

lemma place_file_Normal:
  "Normal (pnml_files (place_file d st f)) =
     Normal (pnml_files st) @
       (if normal_class d f \<and> path_name f \<notin> in_chain st then [f] else [])"
  by (simp add: place_file_def Let_def stem_suffix_name normal_class_def relative_to_def)

lemma place_file_tender_files:
  "tender_files (place_file d st f) =
     (if tender_class d f then (tender_files st)(before_underscore (stem f) \<mapsto> f)
      else tender_files st)"
  by (simp add: place_file_def Let_def stem_suffix_name tender_class_def relative_to_def)

lemma mark_chain_not_trigger: "n \<notin> set triggers \<Longrightarrow> mark_chain fs d st n = st"
  by (simp add: mark_chain_def chain_names_def trigger_iff)

lemma scan_file_Inr:
  assumes "in_chain st \<subseteq> set followers"
  shows "scan_file fs d st f = Inr st1 \<longleftrightarrow>
     chain_ok fs d (path_name f) \<and> st1 = place_file d (mark_chain fs d st (path_name f)) f"
proof (cases "map_of SpecialOrderFiles (path_name f)")
  case None
  then have "path_name f \<notin> set triggers" by (simp add: trigger_iff)
  with None show ?thesis
    by (auto simp: scan_file_def stem_suffix_name mark_chain_not_trigger chain_ok_def
        chain_names_def)
next
  case (Some chain)
  then have t: "path_name f \<in> set triggers" by (simp add: trigger_iff)
  with assms have "path_name f \<notin> in_chain st" using trigger_not_follower by blast
  then have sf: "scan_file fs d st f =
      (case resolve_chain fs d chain (in_chain st, []) of
         Inl e \<Rightarrow> Inl e
       | Inr (ic, file_chain) \<Rightarrow>
           Inr (place_file d
             (st\<lparr>in_chain := ic,
                 special_files := (special_files st)(path_name f \<mapsto> file_chain)\<rparr>) f))"
    using Some by (simp add: scan_file_def stem_suffix_name)
  have ok: "chain_ok fs d (path_name f) = list_all (\<lambda>cf. length (rglob_name fs d cf) = 1) chain"
    using Some by (simp add: chain_ok_def chain_names_def)
  have mc: "mark_chain fs d st (path_name f) =
      st\<lparr>in_chain := in_chain st \<union> set chain,
         special_files :=
           (special_files st)(path_name f \<mapsto> map (\<lambda>cf. rglob_name fs d cf ! 0) chain)\<rparr>"
    using Some t by (simp add: mark_chain_def chain_names_def resolved_def)
  show ?thesis
  proof (cases "resolve_chain fs d chain (in_chain st, [])")
    case (Inl e)
    then have "\<not> chain_ok fs d (path_name f)"
      using resolve_chain_Inr [of fs d chain "in_chain st" "[]"] ok by auto
    with Inl sf show ?thesis by simp
  next
    case (Inr r)
    then have "chain_ok fs d (path_name f)"
      and "r = (in_chain st \<union> set chain, map (\<lambda>cf. rglob_name fs d cf ! 0) chain)"
      using resolve_chain_Inr [of fs d chain "in_chain st" "[]" r] ok by auto
    with Inr sf mc show ?thesis by auto
  qed
qed

lemma mark_chain_followers:
  "in_chain st \<subseteq> set followers \<Longrightarrow> in_chain (mark_chain fs d st n) \<subseteq> set followers"
  using chain_names_followers [of n] by (auto simp: mark_chain_def)

lemma scan_files_Inr:
  assumes "in_chain st \<subseteq> set followers"
  shows "scan_files fs d st L = Inr st' \<longleftrightarrow>
     list_all (\<lambda>f. chain_ok fs d (path_name f)) L \<and> st' = scan_pure fs d st L"
  using assms
proof (induction L arbitrary: st)
  case Nil
  show ?case by auto
next
  case (Cons f L)
  let ?st1 = "place_file d (mark_chain fs d st (path_name f)) f"
  have 1: "in_chain ?st1 \<subseteq> set followers"
    using Cons.prems by (simp add: mark_chain_followers)
  show ?case
  proof (cases "chain_ok fs d (path_name f)")
    case True
    then have "scan_file fs d st f = Inr ?st1" using scan_file_Inr [OF Cons.prems] by simp
    with True Cons.IH [OF 1] show ?thesis by simp
  next
    case False
    then have "\<And>s. scan_file fs d st f \<noteq> Inr s" using scan_file_Inr [OF Cons.prems] by simp
    with False show ?thesis by (auto split: sum.splits)
  qed
qed

lemma scan_pure_in_chain:
  "in_chain (scan_pure fs d st L) = in_chain st \<union> (\<Union>f\<in>set L. set (chain_names (path_name f)))"
  by (induction L arbitrary: st) (auto simp: mark_chain_def)

lemma scan_pure_special_files:
  "special_files (scan_pure fs d st L) n =
     (if n \<in> set triggers \<and> n \<in> path_name ` set L then Some (resolved fs d n)
      else special_files st n)"
  by (induction L arbitrary: st) (auto simp: mark_chain_def)

lemma mark_chain_pnml_files [simp]: "pnml_files (mark_chain fs d st n) = pnml_files st"
  by (simp add: mark_chain_def)

lemma mark_chain_tender_files [simp]: "tender_files (mark_chain fs d st n) = tender_files st"
  by (simp add: mark_chain_def)

lemma scan_pure_Top_level:
  "Top_level (pnml_files (scan_pure fs d st L)) = Top_level (pnml_files st) @ filter (top_level_class d) L"
  by (induction L arbitrary: st) (auto simp: place_file_Top_level)

lemma scan_pure_Priority:
  "Priority (pnml_files (scan_pure fs d st L)) = Priority (pnml_files st) @ filter (priority_class d) L"
  by (induction L arbitrary: st) (auto simp: place_file_Priority)

lemma scan_pure_Append:
  "Append (pnml_files (scan_pure fs d st L)) = Append (pnml_files st) @ filter (append_class d) L"
  by (induction L arbitrary: st) (auto simp: place_file_Append)

lemma scan_pure_tender_files:
  "tender_files (scan_pure fs d st L) = register_tenders d (tender_files st) L"
  by (induction L arbitrary: st) (auto simp: place_file_tender_files)

lemma scan_pure_in_chain_mono: "in_chain st \<subseteq> in_chain (scan_pure fs d st L)"
  by (simp add: scan_pure_in_chain)

lemma scan_pure_Normal:
  assumes "in_chain (scan_pure fs d st L) \<subseteq> X"
  shows "filter (\<lambda>f. path_name f \<notin> X) (Normal (pnml_files (scan_pure fs d st L))) =
     filter (\<lambda>f. path_name f \<notin> X) (Normal (pnml_files st))
       @ filter (\<lambda>f. normal_class d f \<and> path_name f \<notin> X) L"
  using assms
proof (induction L arbitrary: st)
  case Nil
  show ?case by simp
next
  case (Cons f L)
  let ?st1 = "place_file d (mark_chain fs d st (path_name f)) f"
  from Cons.prems have X: "in_chain (scan_pure fs d ?st1 L) \<subseteq> X" by simp
  have "in_chain ?st1 \<subseteq> X" using X scan_pure_in_chain_mono [of ?st1 fs d L] by blast
  then have "path_name f \<notin> X \<Longrightarrow> path_name f \<notin> in_chain (mark_chain fs d st (path_name f))"
    by auto
  then show ?case using Cons.IH [OF X]
    by (auto simp: place_file_Normal)
qed

subsection \<open>The assembly as an order of files\<close>

lemma read_text_exists: "read_text fs p = Some text \<Longrightarrow> path_exists fs p"
  by (auto simp: read_text_def path_exists_def list_ex_iff dest!: map_of_SomeD)

lemma copy_file_Inr:
  "copy_file fs p nml = Inr nml' \<longleftrightarrow> read_text fs p \<noteq> None \<and> nml' = nml @ [block fs p]"
  by (auto simp: copy_file_def block_def read_text_exists split: option.splits)

lemma copy_files_Inr:
  "copy_files fs ps nml = Inr nml' \<longleftrightarrow>
   (\<forall>p\<in>set ps. read_text fs p \<noteq> None) \<and> nml' = nml @ map (block fs) ps"
proof (induction ps arbitrary: nml)
  case Nil
  show ?case by auto
next
  case (Cons p ps)
  show ?case
  proof (cases "copy_file fs p nml")
    case (Inl e)
    with copy_file_Inr [of fs p nml "nml @ [block fs p]"] show ?thesis by auto
  next
    case (Inr nml1)
    with copy_file_Inr [of fs p nml nml1] Cons.IH [of nml1] show ?thesis by auto
  qed
qed

lemma copy_files_append:
  "copy_files fs (xs @ ys) nml =
     (case copy_files fs xs nml of Inl e \<Rightarrow> Inl e | Inr nml' \<Rightarrow> copy_files fs ys nml')"
  by (induction xs arbitrary: nml) (auto split: sum.splits)

lemma emit_file_copy_files:
  "emit_file fs sc (tf, nml) f =
     (case copy_files fs (snd (emit_order sc tf [f])) nml of
        Inl e \<Rightarrow> Inl e
      | Inr nml' \<Rightarrow> Inr (fst (emit_order sc tf [f]), nml'))"
proof (cases "path_name f \<in> in_chain sc")
  case True
  then show ?thesis by (simp add: emit_file_def stem_suffix_name)
next
  case False
  let ?k = "before_underscore (stem f)"
  let ?pending = "if ''Locomotive_Steam'' \<in> set f then tf ?k else None"
  show ?thesis
  proof (cases ?pending)
    case None
    then have a: "emit_file fs sc (tf, nml) f =
        (case copy_files fs (f # chain_of sc (path_name f)) nml of
           Inl e \<Rightarrow> Inl e | Inr nml' \<Rightarrow> Inr (tf, nml'))"
      using False
      by (auto simp: emit_file_def stem_suffix_name Let_def split: sum.splits if_splits)
    have b: "emit_order sc tf [f] = (tf, f # chain_of sc (path_name f))"
      using False None by (simp add: Let_def)
    show ?thesis unfolding a b by (simp only: fst_conv snd_conv)
  next
    case (Some t)
    then have ls: "''Locomotive_Steam'' \<in> set f" and t: "tf ?k = Some t"
      by (auto split: if_splits)
    have a: "emit_file fs sc (tf, nml) f =
        (case copy_files fs (t # f # chain_of sc (path_name f)) nml of
           Inl e \<Rightarrow> Inl e | Inr nml' \<Rightarrow> Inr (tf(?k := None), nml'))"
      using False ls t
      by (auto simp: emit_file_def stem_suffix_name Let_def split: sum.splits)
    have b: "emit_order sc tf [f] = (tf(?k := None), t # f # chain_of sc (path_name f))"
      using False ls t by (simp add: Let_def)
    show ?thesis unfolding a b by (simp only: fst_conv snd_conv)
  qed
qed

lemma emit_file_Inr:
  "emit_file fs sc (tf, nml) f = Inr r \<longleftrightarrow>
     (\<forall>p\<in>set (snd (emit_order sc tf [f])). read_text fs p \<noteq> None)
     \<and> r = (fst (emit_order sc tf [f]), nml @ map (block fs) (snd (emit_order sc tf [f])))"
proof (cases "copy_files fs (snd (emit_order sc tf [f])) nml")
  case (Inl e)
  then show ?thesis
    using copy_files_Inr [of fs "snd (emit_order sc tf [f])" nml
        "nml @ map (block fs) (snd (emit_order sc tf [f]))"]
    by (auto simp: emit_file_copy_files)
next
  case (Inr nml')
  then show ?thesis
    using copy_files_Inr [of fs "snd (emit_order sc tf [f])" nml nml']
    by (auto simp: emit_file_copy_files)
qed

lemma emit_order_append:
  "emit_order sc tf (xs @ ys) =
     (fst (emit_order sc (fst (emit_order sc tf xs)) ys),
      snd (emit_order sc tf xs) @ snd (emit_order sc (fst (emit_order sc tf xs)) ys))"
  by (induction xs arbitrary: tf) (auto simp: Let_def)

lemma emit_order_Cons:
  "emit_order sc tf (x # ys) =
     (fst (emit_order sc (fst (emit_order sc tf [x])) ys),
      snd (emit_order sc tf [x]) @ snd (emit_order sc (fst (emit_order sc tf [x])) ys))"
  using emit_order_append [of sc tf "[x]" ys] by simp

lemma emit_files_Inr:
  "emit_files fs sc (tf, nml) fl = Inr r \<longleftrightarrow>
     (\<forall>p\<in>set (snd (emit_order sc tf fl)). read_text fs p \<noteq> None)
     \<and> r = (fst (emit_order sc tf fl), nml @ map (block fs) (snd (emit_order sc tf fl)))"
proof (induction fl arbitrary: tf nml)
  case Nil
  show ?case by auto
next
  case (Cons f rest)
  let ?o1 = "emit_order sc tf [f]"
  show ?case
  proof (cases "emit_file fs sc (tf, nml) f")
    case (Inl e)
    then have "\<not> (\<forall>p\<in>set (snd ?o1). read_text fs p \<noteq> None)"
      using emit_file_Inr [of fs sc tf nml f "(fst ?o1, nml @ map (block fs) (snd ?o1))"] by auto
    with Inl show ?thesis by (subst (1 2 3) emit_order_Cons) auto
  next
    case (Inr r1)
    then have 1: "\<forall>p\<in>set (snd ?o1). read_text fs p \<noteq> None"
      and r1: "r1 = (fst ?o1, nml @ map (block fs) (snd ?o1))"
      using emit_file_Inr [of fs sc tf nml f r1] by auto
    show ?thesis
      using Inr r1 1 Cons.IH [of "fst ?o1" "nml @ map (block fs) (snd ?o1)"]
      by (subst (1 2 3) emit_order_Cons) auto
  qed
qed

lemma emit_files_append:
  "emit_files fs sc st (xs @ ys) =
     (case emit_files fs sc st xs of Inl e \<Rightarrow> Inl e | Inr st' \<Rightarrow> emit_files fs sc st' ys)"
  by (induction xs arbitrary: st) (auto split: sum.splits)

lemma emit_tiers_concat:
  "emit_tiers fs sc st ls = emit_files fs sc st (concat (map sort ls))"
  by (induction ls arbitrary: st) (auto simp: emit_files_append split: sum.splits)

lemma initial_in_chain: "in_chain initial_scan \<subseteq> set followers"
  by (simp add: initial_scan_def)

lemma assemble_Inr:
  "assemble fs d = Inr nml \<longleftrightarrow>
     (\<forall>p\<in>set (key_paths d). read_text fs p \<noteq> None)
     \<and> list_all (\<lambda>f. chain_ok fs d (path_name f)) (rglob_pnml fs d)
     \<and> (let sc = scan_pure fs d initial_scan (rglob_pnml fs d);
             order = snd (emit_order sc (tender_files sc) (all_tiers sc))
        in (\<forall>p\<in>set order. read_text fs p \<noteq> None)
           \<and> nml = map (block fs) (key_paths d @ order))"
proof -
  let ?L = "rglob_pnml fs d"
  let ?sc = "scan_pure fs d initial_scan ?L"
  show ?thesis
  proof (cases "copy_files fs (key_paths d) []")
    case (Inl e)
    then have "\<not> (\<forall>p\<in>set (key_paths d). read_text fs p \<noteq> None)"
      using copy_files_Inr [of fs "key_paths d" "[]" "map (block fs) (key_paths d)"] by auto
    with Inl show ?thesis by (auto simp: assemble_def key_paths_def)
  next
    case (Inr nml0)
    then have k: "\<forall>p\<in>set (key_paths d). read_text fs p \<noteq> None"
      and nml0: "nml0 = map (block fs) (key_paths d)"
      using copy_files_Inr [of fs "key_paths d" "[]" nml0] by auto
    show ?thesis
    proof (cases "scan_files fs d initial_scan ?L")
      case (Inl e)
      then have "\<not> list_all (\<lambda>f. chain_ok fs d (path_name f)) ?L"
        using scan_files_Inr [OF initial_in_chain, of fs d ?L ?sc] by auto
      with Inl Inr show ?thesis by (auto simp: assemble_def key_paths_def)
    next
      case sc: (Inr sc)
      then have ok: "list_all (\<lambda>f. chain_ok fs d (path_name f)) ?L" and sc_eq: "sc = ?sc"
        using scan_files_Inr [OF initial_in_chain, of fs d ?L sc] by auto
      let ?o = "emit_order ?sc (tender_files ?sc) (all_tiers ?sc)"
      have a: "assemble fs d =
        (case emit_files fs ?sc (tender_files ?sc, nml0) (all_tiers ?sc) of
           Inl e \<Rightarrow> Inl e | Inr (tf, nml') \<Rightarrow> Inr nml')"
        using Inr sc sc_eq
        by (simp add: assemble_def key_paths_def emit_tiers_concat all_tiers_def)
      show ?thesis
      proof (cases "emit_files fs ?sc (tender_files ?sc, nml0) (all_tiers ?sc)")
        case (Inl e)
        then have "\<not> (\<forall>p\<in>set (snd ?o). read_text fs p \<noteq> None)"
          using emit_files_Inr [of fs ?sc "tender_files ?sc" nml0 "all_tiers ?sc"
              "(fst ?o, nml0 @ map (block fs) (snd ?o))"] by auto
        with Inl a show ?thesis by (auto simp: Let_def)
      next
        case (Inr r)
        then have "\<forall>p\<in>set (snd ?o). read_text fs p \<noteq> None"
          and "r = (fst ?o, nml0 @ map (block fs) (snd ?o))"
          using emit_files_Inr [of fs ?sc "tender_files ?sc" nml0 "all_tiers ?sc" r] by auto
        with Inr a k ok nml0 show ?thesis by (auto simp: Let_def)
      qed
    qed
  qed
qed

lemma ran_remove: "ran (m(k := None)) \<subseteq> ran m"
  by (auto simp: ran_def split: if_splits)

lemma ran_fst_emit_order: "ran (fst (emit_order sc tf xs)) \<subseteq> ran tf"
proof (induction xs arbitrary: tf)
  case Nil
  show ?case by simp
next
  case (Cons f xs)
  show ?case
  proof (cases "path_name f \<in> in_chain sc")
    case True
    with Cons.IH [of tf] show ?thesis by simp
  next
    case False
    let ?k = "before_underscore (stem f)"
    let ?pending = "if ''Locomotive_Steam'' \<in> set f then tf ?k else None"
    let ?tf1 = "case ?pending of None \<Rightarrow> tf | Some t \<Rightarrow> tf(?k := None)"
    have "ran ?tf1 \<subseteq> ran tf" using ran_remove [of tf ?k] by (auto split: option.splits)
    moreover have "fst (emit_order sc tf (f # xs)) = fst (emit_order sc ?tf1 xs)"
      using False by (simp add: Let_def)
    ultimately show ?thesis using Cons.IH [of ?tf1] by auto
  qed
qed

lemma emit_order_spliced:
  assumes "ran tf \<subseteq> R"
  shows "\<exists>pre. length pre = length (filter (\<lambda>f. path_name f \<notin> in_chain sc) xs)
     \<and> (\<forall>g\<in>set pre. length g \<le> 1 \<and> set g \<subseteq> R)
     \<and> snd (emit_order sc tf xs) =
         concat (map2 (\<lambda>g f. g @ f # chain_of sc (path_name f)) pre
           (filter (\<lambda>f. path_name f \<notin> in_chain sc) xs))"
  using assms
proof (induction xs arbitrary: tf)
  case Nil
  show ?case by simp
next
  case (Cons f xs)
  show ?case
  proof (cases "path_name f \<in> in_chain sc")
    case True
    with Cons.IH [OF Cons.prems] show ?thesis by simp
  next
    case False
    let ?k = "before_underscore (stem f)"
    let ?pending = "if ''Locomotive_Steam'' \<in> set f then tf ?k else None"
    let ?tf1 = "case ?pending of None \<Rightarrow> tf | Some t \<Rightarrow> tf(?k := None)"
    let ?g = "case ?pending of None \<Rightarrow> [] | Some t \<Rightarrow> [t]"
    have "ran ?tf1 \<subseteq> ran tf" using ran_remove [of tf ?k] by (auto split: option.splits)
    with Cons.prems have r1: "ran ?tf1 \<subseteq> R" by blast
    from Cons.IH [OF r1] obtain pre where
      pre: "length pre = length (filter (\<lambda>f. path_name f \<notin> in_chain sc) xs)"
        "\<forall>g\<in>set pre. length g \<le> 1 \<and> set g \<subseteq> R"
        "snd (emit_order sc ?tf1 xs) =
           concat (map2 (\<lambda>g f. g @ f # chain_of sc (path_name f)) pre
             (filter (\<lambda>f. path_name f \<notin> in_chain sc) xs))"
      by blast
    have g: "length ?g \<le> 1 \<and> set ?g \<subseteq> R"
      using Cons.prems by (auto simp: ran_def split: option.splits if_splits)
    have s: "snd (emit_order sc tf (f # xs)) =
        ?g @ f # chain_of sc (path_name f) @ snd (emit_order sc ?tf1 xs)"
      using False by (simp add: Let_def)
    show ?thesis
    proof (intro exI [of _ "?g # pre"] conjI)
      show "length (?g # pre) = length (filter (\<lambda>f. path_name f \<notin> in_chain sc) (f # xs))"
        using False pre(1) by simp
      show "\<forall>g\<in>set (?g # pre). length g \<le> 1 \<and> set g \<subseteq> R"
        using g pre(2) by simp
      show "snd (emit_order sc tf (f # xs)) =
         concat (map2 (\<lambda>g f. g @ f # chain_of sc (path_name f)) (?g # pre)
           (filter (\<lambda>f. path_name f \<notin> in_chain sc) (f # xs)))"
        unfolding s pre(3) using False by simp
    qed
  qed
qed

lemma emit_order_spliced_tier:
  assumes "ran tf \<subseteq> ran (tender_files sc)"
  shows "spliced sc (filter (\<lambda>f. path_name f \<notin> in_chain sc) xs) (snd (emit_order sc tf xs))"
  using emit_order_spliced [OF assms, of sc xs] unfolding spliced_def by blast

lemma block_shape:
  "read_text fs p \<noteq> None \<Longrightarrow>
   \<exists>text. read_text fs (fst (block fs p)) = Some text
     \<and> snd (block fs p) = ''// '' @ path_name (fst (block fs p)) @ nl @ text @ nl @ nl"
  by (auto simp: block_def block_text_def stem_suffix_name)

lemma key_paths_eq: "key_paths d = map (joinpath d) (map fst KeyFiles)"
  by (simp add: key_paths_def)

lemma assemble_InrD:
  assumes "assemble fs d = Inr nml"
  defines "sc \<equiv> scan_pure fs d initial_scan (rglob_pnml fs d)"
  shows "scan_files fs d initial_scan (rglob_pnml fs d) = Inr sc"
    and "list_all (\<lambda>f. chain_ok fs d (path_name f)) (rglob_pnml fs d)"
    and "map fst nml = key_paths d @ snd (emit_order sc (tender_files sc) (all_tiers sc))"
    and "\<forall>b\<in>set nml. \<exists>text. read_text fs (fst b) = Some text
           \<and> snd b = ''// '' @ path_name (fst b) @ nl @ text @ nl @ nl"
proof -
  let ?order = "snd (emit_order sc (tender_files sc) (all_tiers sc))"
  from assms(1) have k: "\<forall>p\<in>set (key_paths d). read_text fs p \<noteq> None"
    and ok: "list_all (\<lambda>f. chain_ok fs d (path_name f)) (rglob_pnml fs d)"
    and o: "\<forall>p\<in>set ?order. read_text fs p \<noteq> None"
    and nml: "nml = map (block fs) (key_paths d @ ?order)"
    unfolding assemble_Inr sc_def by (simp_all add: Let_def)
  show "list_all (\<lambda>f. chain_ok fs d (path_name f)) (rglob_pnml fs d)" by (rule ok)
  show "scan_files fs d initial_scan (rglob_pnml fs d) = Inr sc"
    using scan_files_Inr [OF initial_in_chain, of fs d "rglob_pnml fs d" sc] ok
    by (simp add: sc_def)
  have fst_block: "\<And>ps. map fst (map (block fs) ps) = ps"
    by (simp add: block_def comp_def)
  show "map fst nml = key_paths d @ ?order" unfolding nml by (rule fst_block)
  show "\<forall>b\<in>set nml. \<exists>text. read_text fs (fst b) = Some text
           \<and> snd b = ''// '' @ path_name (fst b) @ nl @ text @ nl @ nl"
  proof
    fix b assume "b \<in> set nml"
    then obtain p where p: "p \<in> set (key_paths d @ ?order)" and b: "b = block fs p"
      unfolding nml by auto
    from p k o have "read_text fs p \<noteq> None" by auto
    from block_shape [OF this] b
    show "\<exists>text. read_text fs (fst b) = Some text
           \<and> snd b = ''// '' @ path_name (fst b) @ nl @ text @ nl @ nl" by simp
  qed
qed

text \<open>
  C4. In a run that assembles a buffer, the files copied are the key files in the order of
  the table, then what the Top-level tier emits, then the Priority, the Normal and the
  Append tier, in this order. What a tier emits is its files sorted by path without those
  whose name is in a chain, each after at most one pending tender file and followed by its
  own chain. Every block is the comment line with the name of its file, the text of the
  file, and two newlines.
\<close>

theorem C4_emission_order:
  assumes "assemble fs d = Inr nml_file"
  shows "\<exists>sc eT eP eN eA.
      scan_files fs d initial_scan (rglob_pnml fs d) = Inr sc
      \<and> map fst nml_file = map (joinpath d) (map fst KeyFiles) @ eT @ eP @ eN @ eA
      \<and> spliced sc (filter (\<lambda>f. path_name f \<notin> in_chain sc) (sort (Top_level (pnml_files sc)))) eT
      \<and> spliced sc (filter (\<lambda>f. path_name f \<notin> in_chain sc) (sort (Priority (pnml_files sc)))) eP
      \<and> spliced sc (filter (\<lambda>f. path_name f \<notin> in_chain sc) (sort (Normal (pnml_files sc)))) eN
      \<and> spliced sc (filter (\<lambda>f. path_name f \<notin> in_chain sc) (sort (Append (pnml_files sc)))) eA
      \<and> (\<forall>b\<in>set nml_file. \<exists>text. read_text fs (fst b) = Some text
            \<and> snd b = ''// '' @ path_name (fst b) @ nl @ text @ nl @ nl)"
proof -
  define sc where "sc = scan_pure fs d initial_scan (rglob_pnml fs d)"
  let ?T = "sort (Top_level (pnml_files sc))"
  let ?P = "sort (Priority (pnml_files sc))"
  let ?N = "sort (Normal (pnml_files sc))"
  let ?A = "sort (Append (pnml_files sc))"
  define tf0 where "tf0 = tender_files sc"
  define tf1 where "tf1 = fst (emit_order sc tf0 ?T)"
  define tf2 where "tf2 = fst (emit_order sc tf1 ?P)"
  define tf3 where "tf3 = fst (emit_order sc tf2 ?N)"
  note d = assemble_InrD [OF assms, folded sc_def]
  have r1: "ran tf1 \<subseteq> ran (tender_files sc)"
    unfolding tf1_def tf0_def by (rule ran_fst_emit_order)
  have r2: "ran tf2 \<subseteq> ran (tender_files sc)"
    unfolding tf2_def using ran_fst_emit_order [of sc tf1 ?P] r1 by blast
  have r3: "ran tf3 \<subseteq> ran (tender_files sc)"
    unfolding tf3_def using ran_fst_emit_order [of sc tf2 ?N] r2 by blast
  have at: "all_tiers sc = ?T @ ?P @ ?N @ ?A"
    by (simp add: all_tiers_def tier_lists_def)
  have order: "snd (emit_order sc (tender_files sc) (all_tiers sc)) =
      snd (emit_order sc tf0 ?T) @ snd (emit_order sc tf1 ?P) @ snd (emit_order sc tf2 ?N)
        @ snd (emit_order sc tf3 ?A)"
    unfolding at tf3_def tf2_def tf1_def tf0_def by (simp add: emit_order_append)
  show ?thesis
  proof (intro exI conjI)
    show "scan_files fs d initial_scan (rglob_pnml fs d) = Inr sc" by (rule d(1))
    show "map fst nml_file = map (joinpath d) (map fst KeyFiles) @ snd (emit_order sc tf0 ?T)
        @ snd (emit_order sc tf1 ?P) @ snd (emit_order sc tf2 ?N) @ snd (emit_order sc tf3 ?A)"
      using d(3) order by (simp add: key_paths_eq)
    show "spliced sc (filter (\<lambda>f. path_name f \<notin> in_chain sc) ?T) (snd (emit_order sc tf0 ?T))"
      by (rule emit_order_spliced_tier) (simp add: tf0_def)
    show "spliced sc (filter (\<lambda>f. path_name f \<notin> in_chain sc) ?P) (snd (emit_order sc tf1 ?P))"
      by (rule emit_order_spliced_tier [OF r1])
    show "spliced sc (filter (\<lambda>f. path_name f \<notin> in_chain sc) ?N) (snd (emit_order sc tf2 ?N))"
      by (rule emit_order_spliced_tier [OF r2])
    show "spliced sc (filter (\<lambda>f. path_name f \<notin> in_chain sc) ?A) (snd (emit_order sc tf3 ?A))"
      by (rule emit_order_spliced_tier [OF r3])
    show "\<forall>b\<in>set nml_file. \<exists>text. read_text fs (fst b) = Some text
            \<and> snd b = ''// '' @ path_name (fst b) @ nl @ text @ nl @ nl" by (rule d(4))
  qed
qed

theorem C4_emission_order_witness:
  "map fst (projr (assemble tree_tiers [''src''])) =
     [[''src'', ''grf.pnml''], [''src'', ''railtypes.pnml''], [''src'', ''sounds.pnml''],
      [''src'', ''templates_shared.pnml''], [''src'', ''templates_trains.pnml''],
      [''src'', ''header.pnml''],
      [''src'', ''priority'', ''p.pnml''],
      [''src'', ''units'', ''Evol_Header.pnml''], [''src'', ''cabs'', ''Evol_B.pnml''],
      [''src'', ''Evol_F.pnml''], [''src'', ''units'', ''Evol_T.pnml''],
      [''src'', ''wagons'', ''a.pnml''], [''src'', ''wagons'', ''b.pnml''],
      [''src'', ''append'', ''z.pnml'']]
   \<and> (\<exists>sc eT eP eN eA.
      scan_files tree_tiers [''src''] initial_scan (rglob_pnml tree_tiers [''src'']) = Inr sc
      \<and> map fst (projr (assemble tree_tiers [''src''])) =
          map (joinpath [''src'']) (map fst KeyFiles) @ eT @ eP @ eN @ eA
      \<and> spliced sc (filter (\<lambda>f. path_name f \<notin> in_chain sc) (sort (Top_level (pnml_files sc)))) eT
      \<and> spliced sc (filter (\<lambda>f. path_name f \<notin> in_chain sc) (sort (Priority (pnml_files sc)))) eP
      \<and> spliced sc (filter (\<lambda>f. path_name f \<notin> in_chain sc) (sort (Normal (pnml_files sc)))) eN
      \<and> spliced sc (filter (\<lambda>f. path_name f \<notin> in_chain sc) (sort (Append (pnml_files sc)))) eA
      \<and> (\<forall>b\<in>set (projr (assemble tree_tiers [''src''])).
            \<exists>text. read_text tree_tiers (fst b) = Some text
            \<and> snd b = ''// '' @ path_name (fst b) @ nl @ text @ nl @ nl))"
proof -
  let ?a = "assemble tree_tiers [''src'']"
  have "\<not> isl ?a" by code_simp
  then have h: "?a = Inr (projr ?a)" by (cases ?a) auto
  have p: "map fst (projr ?a) =
     [[''src'', ''grf.pnml''], [''src'', ''railtypes.pnml''], [''src'', ''sounds.pnml''],
      [''src'', ''templates_shared.pnml''], [''src'', ''templates_trains.pnml''],
      [''src'', ''header.pnml''],
      [''src'', ''priority'', ''p.pnml''],
      [''src'', ''units'', ''Evol_Header.pnml''], [''src'', ''cabs'', ''Evol_B.pnml''],
      [''src'', ''Evol_F.pnml''], [''src'', ''units'', ''Evol_T.pnml''],
      [''src'', ''wagons'', ''a.pnml''], [''src'', ''wagons'', ''b.pnml''],
      [''src'', ''append'', ''z.pnml'']]"
    by code_simp
  from C4_emission_order [OF h] p show ?thesis by blast
qed


lemma rglob_name_unique_name:
  "length (rglob_name fs d cf) = 1 \<Longrightarrow> path_name (rglob_name fs d cf ! 0) = cf"
  using nth_mem [of 0 "rglob_name fs d cf"] by (auto simp: rglob_name_def simp del: nth_mem)

text \<open>
  C8. The resolver goes through the followers in the order declared. The first follower
  that does not have exactly one file of its name below the source directory stops it: with
  FileNotFoundError when there is none, with RuntimeError when there are several. When every
  follower has exactly one file, the result lists these files in the order declared. In the
  whole run, a trigger file in the tree with such a follower makes the assembly fail.
\<close>

theorem C8_chain_resolution:
  "resolve_chain fs d chain (ic, fc) =
     (case List.find (\<lambda>cf. length (rglob_name fs d cf) \<noteq> 1) chain of
        None \<Rightarrow> Inr (ic \<union> set chain, fc @ map (\<lambda>cf. rglob_name fs d cf ! 0) chain)
      | Some cf \<Rightarrow>
          (if rglob_name fs d cf = []
           then Inl (FileNotFoundError
                  (''No file named '' @ apostrophe @ cf @ apostrophe @ '' found''))
           else Inl (RuntimeError cf (rglob_name fs d cf))))
   \<and> (list_all (\<lambda>cf. length (rglob_name fs d cf) = 1) chain \<longrightarrow>
        map path_name (map (\<lambda>cf. rglob_name fs d cf ! 0) chain) = chain)
   \<and> (\<forall>f\<in>set (rglob_pnml fs d). \<forall>followers_of_f cf.
        map_of SpecialOrderFiles (path_name f) = Some followers_of_f
        \<and> cf \<in> set followers_of_f \<and> length (rglob_name fs d cf) \<noteq> 1
        \<longrightarrow> (\<exists>e. assemble fs d = Inl e))"
proof (intro conjI impI ballI allI)
  show "resolve_chain fs d chain (ic, fc) =
     (case List.find (\<lambda>cf. length (rglob_name fs d cf) \<noteq> 1) chain of
        None \<Rightarrow> Inr (ic \<union> set chain, fc @ map (\<lambda>cf. rglob_name fs d cf ! 0) chain)
      | Some cf \<Rightarrow>
          (if rglob_name fs d cf = []
           then Inl (FileNotFoundError
                  (''No file named '' @ apostrophe @ cf @ apostrophe @ '' found''))
           else Inl (RuntimeError cf (rglob_name fs d cf))))"
    by (rule resolve_chain_find)
next
  assume "list_all (\<lambda>cf. length (rglob_name fs d cf) = 1) chain"
  then show "map path_name (map (\<lambda>cf. rglob_name fs d cf ! 0) chain) = chain"
    by (induction chain) (simp_all add: rglob_name_unique_name)
next
  fix f followers_of_f cf
  assume f: "f \<in> set (rglob_pnml fs d)"
    and c: "map_of SpecialOrderFiles (path_name f) = Some followers_of_f
        \<and> cf \<in> set followers_of_f \<and> length (rglob_name fs d cf) \<noteq> 1"
  then have "\<not> chain_ok fs d (path_name f)"
    by (auto simp: chain_ok_def chain_names_def list_all_iff)
  with f have "\<not> list_all (\<lambda>f. chain_ok fs d (path_name f)) (rglob_pnml fs d)"
    by (auto simp: list_all_iff)
  then have "\<And>nml. assemble fs d \<noteq> Inr nml" by (simp add: assemble_Inr)
  then show "\<exists>e. assemble fs d = Inl e" by (cases "assemble fs d") auto
qed

theorem C8_chain_resolution_witness:
  "resolve_chain tree_tiers [''src''] [''Evol_B.pnml'', ''Evol_F.pnml'', ''Evol_T.pnml''] ({}, []) =
     Inr ({''Evol_B.pnml'', ''Evol_F.pnml'', ''Evol_T.pnml''},
       [[''src'', ''cabs'', ''Evol_B.pnml''], [''src'', ''Evol_F.pnml''],
        [''src'', ''units'', ''Evol_T.pnml'']])
   \<and> map path_name
       (map (\<lambda>cf. rglob_name tree_tiers [''src''] cf ! 0)
         [''Evol_B.pnml'', ''Evol_F.pnml'', ''Evol_T.pnml''])
       = [''Evol_B.pnml'', ''Evol_F.pnml'', ''Evol_T.pnml'']
   \<and> resolve_chain tree_duplicate_follower [''src'']
        [''Evol_B.pnml'', ''Evol_F.pnml'', ''Evol_T.pnml''] ({}, []) =
      Inl (RuntimeError ''Evol_B.pnml''
        [[''src'', ''cabs'', ''Evol_B.pnml''], [''src'', ''units'', ''Evol_B.pnml'']])
   \<and> (\<exists>e. assemble tree_duplicate_follower [''src''] = Inl e)"
proof -
  let ?chain = "[''Evol_B.pnml'', ''Evol_F.pnml'', ''Evol_T.pnml'']"
  let ?f = "[''src'', ''units'', ''Evol_Header.pnml'']"
  note t = C8_chain_resolution [of tree_tiers "[''src'']" ?chain "{}" "[]"]
  note u = C8_chain_resolution [of tree_duplicate_follower "[''src'']" ?chain "{}" "[]"]
  have 1: "list_all (\<lambda>cf. length (rglob_name tree_tiers [''src''] cf) = 1) ?chain"
    by code_simp
  have 2: "List.find (\<lambda>cf. length (rglob_name tree_tiers [''src''] cf) \<noteq> 1) ?chain = None"
    by code_simp
  have 3: "map (\<lambda>cf. rglob_name tree_tiers [''src''] cf ! 0) ?chain =
      [[''src'', ''cabs'', ''Evol_B.pnml''], [''src'', ''Evol_F.pnml''],
        [''src'', ''units'', ''Evol_T.pnml'']]"
    by code_simp
  have 4: "List.find (\<lambda>cf. length (rglob_name tree_duplicate_follower [''src''] cf) \<noteq> 1) ?chain
      = Some ''Evol_B.pnml''"
    by code_simp
  have 5: "rglob_name tree_duplicate_follower [''src''] ''Evol_B.pnml'' =
      [[''src'', ''cabs'', ''Evol_B.pnml''], [''src'', ''units'', ''Evol_B.pnml'']]"
    by code_simp
  have 6: "?f \<in> set (rglob_pnml tree_duplicate_follower [''src''])" by code_simp
  have 7: "map_of SpecialOrderFiles (path_name ?f) = Some ?chain" by code_simp
  have 8: "length (rglob_name tree_duplicate_follower [''src''] ''Evol_B.pnml'') \<noteq> 1"
    by (simp add: 5)
  have a: "resolve_chain tree_tiers [''src''] ?chain ({}, []) =
     Inr ({''Evol_B.pnml'', ''Evol_F.pnml'', ''Evol_T.pnml''},
       [[''src'', ''cabs'', ''Evol_B.pnml''], [''src'', ''Evol_F.pnml''],
        [''src'', ''units'', ''Evol_T.pnml'']])"
    unfolding t [THEN conjunct1] 2 option.case 3 by simp
  have b: "map path_name (map (\<lambda>cf. rglob_name tree_tiers [''src''] cf ! 0) ?chain) = ?chain"
    using t [THEN conjunct2, THEN conjunct1] 1 by blast
  have c: "resolve_chain tree_duplicate_follower [''src''] ?chain ({}, []) =
      Inl (RuntimeError ''Evol_B.pnml''
        [[''src'', ''cabs'', ''Evol_B.pnml''], [''src'', ''units'', ''Evol_B.pnml'']])"
    unfolding u [THEN conjunct1] 4 option.case 5 by simp
  have d: "\<exists>e. assemble tree_duplicate_follower [''src''] = Inl e"
    using u [THEN conjunct2, THEN conjunct2] 6 7 8 by fastforce
  from a b c d show ?thesis by blast
qed

subsection \<open>Tender files in the order of emission\<close>

lemma emit_order_pending:
  "fst (emit_order sc tf xs) k = (if \<exists>f\<in>set xs. matches sc k f then None else tf k)"
proof (induction xs arbitrary: tf)
  case Nil
  show ?case by simp
next
  case (Cons f xs)
  show ?case
  proof (cases "path_name f \<in> in_chain sc")
    case True
    with Cons.IH [of tf] show ?thesis by (simp add: matches_def)
  next
    case False
    let ?k = "before_underscore (stem f)"
    let ?pending = "if ''Locomotive_Steam'' \<in> set f then tf ?k else None"
    let ?tf1 = "case ?pending of None \<Rightarrow> tf | Some t \<Rightarrow> tf(?k := None)"
    have 1: "fst (emit_order sc tf (f # xs)) = fst (emit_order sc ?tf1 xs)"
      using False by (simp add: Let_def)
    have 2: "?tf1 k = (if matches sc k f then None else tf k)"
      using False by (auto simp: matches_def split: option.splits)
    show ?thesis unfolding 1 Cons.IH [of ?tf1] 2 by auto
  qed
qed







lemma triggers_keys: "fst ` set SpecialOrderFiles = set triggers"
  by (simp add: triggers_def)

lemma chain_of_scan:
  "chain_of (scan_pure fs d initial_scan L) n =
     (if n \<in> set triggers \<and> n \<in> path_name ` set L then resolved fs d n else [])"
  by (simp add: chain_of_def triggers_keys scan_pure_special_files initial_scan_def)

lemma in_chain_scan:
  "in_chain (scan_pure fs d initial_scan L) = (\<Union>f\<in>set L. set (chain_names (path_name f)))"
  by (simp add: scan_pure_in_chain initial_scan_def)






lemma register_tenders_Some:
  "register_tenders d tf L k = Some t \<Longrightarrow>
   tf k = Some t \<or> (t \<in> set L \<and> tender_class d t \<and> k = before_underscore (stem t))"
proof (induction L arbitrary: tf)
  case Nil
  then show ?case by simp
next
  case (Cons f L)
  let ?tf1 = "if tender_class d f then tf(before_underscore (stem f) \<mapsto> f) else tf"
  from Cons.prems have "register_tenders d ?tf1 L k = Some t" by simp
  from Cons.IH [OF this] show ?case by (auto split: if_splits)
qed



lemma path_name_snoc [simp]: "path_name (p @ [n]) = n"
  by (cases p) (simp_all add: path_name_def)






text \<open>
  Outside the amended statements: when a locomotive of \<^verbatim>\<open>MR\<close> that is not in the chain is
  in the tree as well, \<^verbatim>\<open>MR_Tenders.pnml\<close> is copied twice, once in the chain of
  \<^verbatim>\<open>LMS_4F.pnml\<close> and once as the tender in front of that locomotive.
\<close>

lemma follower_tender_copied_twice:
  "\<exists>nml_file. assemble tree_tender_twice [''src''] = Inr nml_file
     \<and> count_list (map fst nml_file) [''src'', ''Locomotive_Steam'', ''MR_Tenders.pnml''] = 2"
proof -
  let ?a = "assemble tree_tender_twice [''src'']"
  have "\<not> isl ?a" by code_simp
  then have 1: "?a = Inr (projr ?a)" by (cases ?a) auto
  have 2: "count_list (map fst (projr ?a)) [''src'', ''Locomotive_Steam'', ''MR_Tenders.pnml''] = 2"
    by code_simp
  show ?thesis by (rule exI [of _ "projr ?a"]) (intro conjI 1 2)
qed



subsection \<open>Chains in the order of emission\<close>


























text \<open>
  C10, as stated, fails once the order of the directory walk is not taken for granted:
  the sort covers the tiers, but the pending tender of a prefix is the one registered last.
  With two tender files of one company the same tree, walked in two orders, gives two
  different outputs.
\<close>

theorem C10_counterexample:
  "mset (files tree_two_tenders_walked_otherwise) = mset (files tree_two_tenders)
   \<and> dirs tree_two_tenders_walked_otherwise = dirs tree_two_tenders
   \<and> distinct (map fst (files tree_two_tenders))
   \<and> (\<exists>nml_file nml_file'.
        assemble tree_two_tenders [''src''] = Inr nml_file
        \<and> assemble tree_two_tenders_walked_otherwise [''src''] = Inr nml_file'
        \<and> render nml_file \<noteq> render nml_file')"
proof -
  let ?a = "assemble tree_two_tenders [''src'']"
  let ?b = "assemble tree_two_tenders_walked_otherwise [''src'']"
  have 1: "mset (files tree_two_tenders_walked_otherwise) = mset (files tree_two_tenders)"
    by (simp add: tree_two_tenders_def tree_two_tenders_walked_otherwise_def)
  have 2: "dirs tree_two_tenders_walked_otherwise = dirs tree_two_tenders"
    by (simp add: tree_two_tenders_def tree_two_tenders_walked_otherwise_def)
  have 3: "distinct (map fst (files tree_two_tenders))" by code_simp
  have "\<not> isl ?a" by code_simp
  then have 4: "?a = Inr (projr ?a)" by (cases ?a) auto
  have "\<not> isl ?b" by code_simp
  then have 5: "?b = Inr (projr ?b)" by (cases ?b) auto
  have 6: "render (projr ?a) \<noteq> render (projr ?b)" by code_simp
  show ?thesis
    by (intro conjI 1 2 3, rule exI [of _ "projr ?a"], rule exI [of _ "projr ?b"])
      (intro conjI 4 5 6)
qed

lemma sort_mset_eq:
  fixes xs ys :: "'a::linorder list"
  assumes "mset xs = mset ys"
  shows "sort xs = sort ys"
  by (rule properties_for_sort) (simp_all add: assms)

lemma emit_order_cong:
  assumes "in_chain sc = in_chain sc'" and "\<And>n. chain_of sc n = chain_of sc' n"
  shows "emit_order sc tf xs = emit_order sc' tf xs"
  by (induction xs arbitrary: tf) (simp_all add: assms Let_def)

lemma emit_order_filter:
  "emit_order sc tf (filter (\<lambda>f. path_name f \<notin> in_chain sc) xs) = emit_order sc tf xs"
  by (induction xs arbitrary: tf) (simp_all add: Let_def)

lemma mset_singleton_list:
  assumes "mset xs = mset ys" and "length ys = 1"
  shows "xs = ys"
proof -
  from assms(2) obtain y where y: "ys = [y]" by (cases ys) auto
  with assms(1) have "mset xs = {#y#}" by simp
  then have "xs = [y]" by (simp add: mset_single_iff_right) 
  with y show ?thesis by simp
qed

lemma register_tenders_keeps:
  "tf k \<noteq> None \<Longrightarrow> register_tenders d tf L k \<noteq> None"
proof (induction L arbitrary: tf)
  case Nil
  then show ?case by simp
next
  case (Cons f L)
  let ?tf1 = "if tender_class d f then tf(before_underscore (stem f) \<mapsto> f) else tf"
  from Cons.prems have "?tf1 k \<noteq> None" by simp
  then have "register_tenders d ?tf1 L k \<noteq> None" by (rule Cons.IH [of ?tf1])
  then show ?case by simp
qed

lemma register_tenders_None:
  "register_tenders d tf L k = None \<Longrightarrow>
   \<not> (\<exists>t\<in>set L. tender_class d t \<and> before_underscore (stem t) = k)"
proof (induction L arbitrary: tf)
  case Nil
  show ?case by simp
next
  case (Cons f L)
  let ?tf1 = "if tender_class d f then tf(before_underscore (stem f) \<mapsto> f) else tf"
  from Cons.prems have r: "register_tenders d ?tf1 L k = None" by simp
  from Cons.IH [OF r] have 1: "\<not> (\<exists>t\<in>set L. tender_class d t \<and> before_underscore (stem t) = k)" .
  have "\<not> (tender_class d f \<and> before_underscore (stem f) = k)"
  proof
    assume a: "tender_class d f \<and> before_underscore (stem f) = k"
    then have "?tf1 k \<noteq> None" by simp
    then have "register_tenders d ?tf1 L k \<noteq> None"
      by (rule register_tenders_keeps [of ?tf1 k d L])
    with r show False by blast
  qed
  with 1 show ?case by simp
qed

lemma register_tenders_unique:
  assumes "inj_on (\<lambda>f. before_underscore (stem f)) {f \<in> set L. tender_class d f}"
    and "mset L' = mset L"
  shows "register_tenders d Map.empty L' = register_tenders d Map.empty L"
proof
  fix k
  have s: "set L' = set L" using assms(2) by (rule mset_eq_setD)
  show "register_tenders d Map.empty L' k = register_tenders d Map.empty L k"
  proof (cases "register_tenders d Map.empty L k")
    case None
    from register_tenders_None [OF this]
    have n: "\<not> (\<exists>t\<in>set L'. tender_class d t \<and> before_underscore (stem t) = k)" by (simp add: s)
    have "register_tenders d Map.empty L' k = None"
    proof (cases "register_tenders d Map.empty L' k")
      case None
      then show ?thesis .
    next
      case (Some t)
      from register_tenders_Some [OF this] n show ?thesis by auto
    qed
    with None show ?thesis by simp
  next
    case (Some t)
    from register_tenders_Some [OF this]
    have t: "t \<in> set L" "tender_class d t" "k = before_underscore (stem t)" by auto
    show ?thesis
    proof (cases "register_tenders d Map.empty L' k")
      case None
      from register_tenders_None [OF this] t s show ?thesis by auto
    next
      case t': (Some t')
      from register_tenders_Some [OF this]
      have "t' \<in> set L" "tender_class d t'" "k = before_underscore (stem t')" by (auto simp: s)
      with t assms(1) have "t' = t" by (auto simp: inj_on_def)
      with Some t' show ?thesis by simp
    qed
  qed
qed

lemma mset_files_rglob:
  assumes "mset (files fs') = mset (files fs)"
  shows "mset (rglob_pnml fs' d) = mset (rglob_pnml fs d)"
    and "mset (rglob_name fs' d n) = mset (rglob_name fs d n)"
proof -
  have "mset (map fst (files fs')) = mset (map fst (files fs))" using assms by simp
  then show "mset (rglob_pnml fs' d) = mset (rglob_pnml fs d)"
    and "mset (rglob_name fs' d n) = mset (rglob_name fs d n)"
    unfolding rglob_pnml_def rglob_name_def mset_filter by simp_all
qed

lemma mset_files_read_text:
  assumes "mset (files fs') = mset (files fs)" and "distinct (map fst (files fs))"
  shows "read_text fs' = read_text fs"
proof -
  have m: "mset (map fst (files fs')) = mset (map fst (files fs))" using assms(1) by simp
  then have "distinct (map fst (files fs'))"
    using assms(2) by (metis mset_eq_imp_distinct_iff)
  moreover have "set (files fs') = set (files fs)" using assms(1) by (rule mset_eq_setD)
  ultimately have "map_of (files fs') = map_of (files fs)"
    using assms(2) by (simp add: map_of_inject_set)
  then show ?thesis by (auto simp: read_text_def)
qed

lemma mset_files_chain:
  assumes "mset (files fs') = mset (files fs)"
  shows "chain_ok fs' d n = chain_ok fs d n"
    and "chain_ok fs d n \<Longrightarrow> resolved fs' d n = resolved fs d n"
proof -
  have len: "\<And>cf. length (rglob_name fs' d cf) = length (rglob_name fs d cf)"
    using mset_files_rglob(2) [OF assms] by (metis size_mset)
  show "chain_ok fs' d n = chain_ok fs d n" by (simp add: chain_ok_def len)
  assume ok: "chain_ok fs d n"
  show "resolved fs' d n = resolved fs d n"
    unfolding resolved_def
  proof (rule map_cong [OF refl])
    fix cf assume "cf \<in> set (chain_names n)"
    with ok have "length (rglob_name fs d cf) = 1" by (simp add: chain_ok_def list_all_iff)
    from mset_singleton_list [OF mset_files_rglob(2) [OF assms] this]
    show "rglob_name fs' d cf ! 0 = rglob_name fs d cf ! 0" by simp
  qed
qed

subsection \<open>The order of the directory walk\<close>

lemma tiers_canonical:
  fixes fs d L
  defines "sc \<equiv> scan_pure fs d initial_scan L"
  shows "filter (\<lambda>f. path_name f \<notin> in_chain sc) (all_tiers sc) =
     sort (filter (\<lambda>f. path_name f \<notin> in_chain sc) (filter (top_level_class d) L))
     @ sort (filter (\<lambda>f. path_name f \<notin> in_chain sc) (filter (priority_class d) L))
     @ sort (filter (\<lambda>f. normal_class d f \<and> path_name f \<notin> in_chain sc) L)
     @ sort (filter (\<lambda>f. path_name f \<notin> in_chain sc) (filter (append_class d) L))"
proof -
  let ?P = "\<lambda>f. path_name f \<notin> in_chain sc"
  have N: "filter ?P (Normal (pnml_files sc)) =
      filter (\<lambda>f. normal_class d f \<and> path_name f \<notin> in_chain sc) L"
    using scan_pure_Normal [of fs d initial_scan L "in_chain sc"]
    by (simp add: sc_def initial_scan_def)
  have T: "Top_level (pnml_files sc) = filter (top_level_class d) L"
    by (simp add: sc_def scan_pure_Top_level initial_scan_def)
  have P: "Priority (pnml_files sc) = filter (priority_class d) L"
    by (simp add: sc_def scan_pure_Priority initial_scan_def)
  have A: "Append (pnml_files sc) = filter (append_class d) L"
    by (simp add: sc_def scan_pure_Append initial_scan_def)
  have "filter ?P (all_tiers sc) =
      filter ?P (sort (Top_level (pnml_files sc))) @ filter ?P (sort (Priority (pnml_files sc)))
      @ filter ?P (sort (Normal (pnml_files sc))) @ filter ?P (sort (Append (pnml_files sc)))"
    by (simp add: all_tiers_def tier_lists_def)
  also have "\<dots> =
      sort (filter ?P (Top_level (pnml_files sc))) @ sort (filter ?P (Priority (pnml_files sc)))
      @ sort (filter ?P (Normal (pnml_files sc))) @ sort (filter ?P (Append (pnml_files sc)))"
    by (simp only: filter_sort)
  finally show ?thesis unfolding N T P A .
qed

text \<open>
  C10, amended. Let two file systems hold the same files with the same texts, each path
  once, met by the directory walk in any two orders, and let no two files that the scan
  sorts into the tender branch have the same text before the first underscore of their
  stems. Then a buffer assembled from the one is assembled from the other as well, block
  for block.
\<close>

theorem C10_walk_order_independent:
  assumes "mset (files fs') = mset (files fs)"
    and "distinct (map fst (files fs))"
    and "inj_on (\<lambda>f. before_underscore (stem f)) {f \<in> set (rglob_pnml fs d). tender_class d f}"
    and "assemble fs d = Inr nml_file"
  shows "assemble fs' d = Inr nml_file"
proof -
  let ?L = "rglob_pnml fs d"
  let ?L' = "rglob_pnml fs' d"
  define sc where "sc = scan_pure fs d initial_scan ?L"
  define sc' where "sc' = scan_pure fs' d initial_scan ?L'"
  let ?order = "snd (emit_order sc (tender_files sc) (all_tiers sc))"
  let ?order' = "snd (emit_order sc' (tender_files sc') (all_tiers sc'))"
  have mL: "mset ?L' = mset ?L" by (rule mset_files_rglob(1) [OF assms(1)])
  then have sL: "set ?L' = set ?L" by (rule mset_eq_setD)
  have rt: "read_text fs' = read_text fs" by (rule mset_files_read_text [OF assms(1,2)])
  from assms(4) have k: "\<forall>p\<in>set (key_paths d). read_text fs p \<noteq> None"
    and ok: "list_all (\<lambda>f. chain_ok fs d (path_name f)) ?L"
    and o: "\<forall>p\<in>set ?order. read_text fs p \<noteq> None"
    and nml: "nml_file = map (block fs) (key_paths d @ ?order)"
    unfolding assemble_Inr sc_def by (simp_all add: Let_def)
  have ok': "list_all (\<lambda>f. chain_ok fs' d (path_name f)) ?L'"
    using ok by (simp add: list_all_iff sL mset_files_chain(1) [OF assms(1)])
  have ic: "in_chain sc' = in_chain sc"
    by (simp add: sc_def sc'_def in_chain_scan sL)
  have co: "\<And>n. chain_of sc' n = chain_of sc n"
  proof -
    fix n
    show "chain_of sc' n = chain_of sc n"
    proof (cases "n \<in> set triggers \<and> n \<in> path_name ` set ?L")
      case True
      with ok have "chain_ok fs d n" by (auto simp: list_all_iff)
      from mset_files_chain(2) [OF assms(1) this] True show ?thesis
        by (simp add: sc_def sc'_def chain_of_scan sL)
    next
      case False
      then show ?thesis by (auto simp: sc_def sc'_def chain_of_scan sL)
    qed
  qed
  have tf: "tender_files sc' = tender_files sc"
    unfolding sc_def sc'_def scan_pure_tender_files
    using register_tenders_unique [OF assms(3) mL] by (simp add: initial_scan_def)
  have srt: "\<And>P. sort (filter P ?L') = sort (filter P ?L)"
    by (rule sort_mset_eq) (simp add: mL)
  have tiers: "filter (\<lambda>f. path_name f \<notin> in_chain sc') (all_tiers sc') =
      filter (\<lambda>f. path_name f \<notin> in_chain sc) (all_tiers sc)"
    unfolding sc'_def tiers_canonical [of fs' d ?L'] unfolding sc'_def [symmetric] ic
    unfolding sc_def tiers_canonical [of fs d ?L] filter_filter srt ..
  have "emit_order sc' (tender_files sc') (all_tiers sc') =
      emit_order sc' (tender_files sc')
        (filter (\<lambda>f. path_name f \<notin> in_chain sc') (all_tiers sc'))"
    by (rule emit_order_filter [symmetric])
  also have "\<dots> = emit_order sc' (tender_files sc)
        (filter (\<lambda>f. path_name f \<notin> in_chain sc) (all_tiers sc))"
    unfolding tiers tf ..
  also have "\<dots> = emit_order sc (tender_files sc)
        (filter (\<lambda>f. path_name f \<notin> in_chain sc) (all_tiers sc))"
    by (rule emit_order_cong [OF ic co])
  also have "\<dots> = emit_order sc (tender_files sc) (all_tiers sc)"
    by (rule emit_order_filter)
  finally have order: "?order' = ?order" by simp
  have bl: "block fs' = block fs" by (rule ext) (simp add: block_def rt)
  show ?thesis
    unfolding assemble_Inr [of fs' d nml_file] Let_def sc'_def [symmetric] order bl rt
    using k ok' o nml by blast
qed

theorem C10_walk_order_independent_witness:
  "assemble (tree_tender\<lparr>files := rev (files tree_tender)\<rparr>) [''src''] =
     Inr (projr (assemble tree_tender [''src'']))
   \<and> map fst (projr (assemble tree_tender [''src''])) =
     [[''src'', ''grf.pnml''], [''src'', ''railtypes.pnml''], [''src'', ''sounds.pnml''],
      [''src'', ''templates_shared.pnml''], [''src'', ''templates_trains.pnml''],
      [''src'', ''Locomotive_Steam'', ''GWR_Tenders.pnml''],
      [''src'', ''Locomotive_Steam'', ''GWR_4900.pnml'']]"
proof -
  let ?fs = tree_tender
  let ?fs' = "tree_tender\<lparr>files := rev (files tree_tender)\<rparr>"
  let ?a = "assemble ?fs [''src'']"
  have 1: "mset (files ?fs') = mset (files ?fs)" by simp
  have 2: "distinct (map fst (files ?fs))" by code_simp
  have "{f \<in> set (rglob_pnml ?fs [''src'']). tender_class [''src''] f} =
      {[''src'', ''Locomotive_Steam'', ''GWR_Tenders.pnml'']}"
    by code_simp
  then have 3: "inj_on (\<lambda>f. before_underscore (stem f))
      {f \<in> set (rglob_pnml ?fs [''src'']). tender_class [''src''] f}"
    by simp
  have "\<not> isl ?a" by code_simp
  then have 4: "?a = Inr (projr ?a)" by (cases ?a) auto
  have 5: "map fst (projr ?a) =
     [[''src'', ''grf.pnml''], [''src'', ''railtypes.pnml''], [''src'', ''sounds.pnml''],
      [''src'', ''templates_shared.pnml''], [''src'', ''templates_trains.pnml''],
      [''src'', ''Locomotive_Steam'', ''GWR_Tenders.pnml''],
      [''src'', ''Locomotive_Steam'', ''GWR_4900.pnml'']]"
    by code_simp
  from C10_walk_order_independent [OF 1 2 3 4] 5 show ?thesis by (intro conjI)
qed

subsection \<open>The artifact after a run\<close>




end
